theory Spec2Isabelle
  imports Main
begin

section \<open>The WebSocket client of the scan dashboard\<close>

text \<open>
  A shallow embedding of the class \<open>WebSocketClient\<close> (the connection manager of the
  dashboard): its fields are a record, each method and each callback it installs is a
  function on that record. The browser around the class (sockets, timers, promises, the
  console) is part of the same record, so that every effect of a method is a field update.

  JavaScript runs one callback at a time; the reactions of a promise run after the
  callback that settled it has returned. A step of the model is therefore one callback
  followed by the queued reactions.
\<close>

subsection \<open>Values exchanged with handlers and the wire\<close>

text \<open>Parsed JSON, standing for the \<open>any\<close> of the source.\<close>

datatype jsval =
    JNull
  | JBool bool
  | JNum int
  | JStr string
  | JArr "jsval list"
  | JObj "(string \<times> jsval) list"

text \<open>JavaScript truthiness, as \<open>||\<close> and \<open>if\<close> see it.\<close>

fun truthy :: "jsval \<Rightarrow> bool" where
  "truthy JNull = False"
| "truthy (JBool b) = b"
| "truthy (JNum n) = (n \<noteq> 0)"
| "truthy (JStr s) = (s \<noteq> [])"
| "truthy (JArr xs) = True"
| "truthy (JObj kvs) = True"

text \<open>
  Reading a property \<open>v.k\<close> of a value that is not \<open>null\<close>; \<open>None\<close> is
  \<open>undefined\<close>. (Reading a property of \<open>null\<close> throws; the callers below test for
  \<open>JNull\<close> first.)
\<close>

fun get_prop :: "jsval \<Rightarrow> string \<Rightarrow> jsval option" where
  "get_prop (JObj kvs) k = map_of kvs k"
| "get_prop v k = None"

text \<open>\<open>a || b\<close> where \<open>a\<close> may be \<open>undefined\<close>.\<close>

definition or_else :: "jsval option \<Rightarrow> jsval \<Rightarrow> jsval" where
  "or_else a b = (case a of None \<Rightarrow> b | Some v \<Rightarrow> if truthy v then v else b)"

subsection \<open>The state of the client and of the browser around it\<close>

text \<open>\<open>connectionState\<close> has exactly the four values of its declared type.\<close>

datatype conn_state = Disconnected | Connecting | Connected | Authenticated

fun state_name :: "conn_state \<Rightarrow> string" where
  "state_name Disconnected = ''disconnected''"
| "state_name Connecting = ''connecting''"
| "state_name Connected = ''connected''"
| "state_name Authenticated = ''authenticated''"

datatype ready_state = CONNECTING | OPEN | CLOSING | CLOSED

text \<open>
  A handler is compared by reference. \<open>Consumer c\<close> is a function passed to \<open>on\<close> from
  outside the class. \<open>HandleAuthResponse a tm\<close> and \<open>HandleAuthError a tm\<close> are the two
  closures that one call of \<open>authenticate\<close> creates: \<open>a\<close> is the promise they settle,
  \<open>tm\<close> the handle of the timeout they clear.
\<close>

datatype handler =
    Consumer nat
  | HandleAuthResponse nat nat
  | HandleAuthError nat nat

text \<open>A rejection carries the argument of \<open>new Error(...)\<close> (or the thrown value).\<close>

datatype pstate = Pending | Fulfilled | Rejected jsval

text \<open>
  Who waits for a promise: the caller of the public \<open>connect\<close>; the \<open>then\<close>/\<open>catch\<close>
  of \<open>attemptReconnect\<close>; or the \<open>then\<close>/\<open>catch\<close> that \<open>onopen\<close> chains to
  \<open>authenticate()\<close>, which holds \<open>resolve\<close> and \<open>reject\<close> of a \<open>connect\<close> promise.
\<close>

datatype reaction = ByCaller | ByReconnect | AuthChain nat

record promise =
  status :: pstate
  reaction :: reaction

text \<open>A socket made by \<open>new WebSocket\<close>; its listeners hold the promise \<open>owner\<close>.\<close>

record socket =
  readyState :: ready_state
  owner :: nat

datatype timer_kind = SettleTimer nat | AuthTimer nat | HeartbeatTimer | ReconnectTimer

record timer =
  tid :: nat
  kind :: timer_kind
  delay :: nat

text \<open>What the client does to the outside, in order.\<close>

datatype obs =
    Registered string handler
  | Invoked string handler jsval
  | HandlerError string handler
  | WireSend nat jsval
  | SendDropped jsval
  | WireClose nat nat
  | ParseFailed
  | ConnectResult nat pstate

record client =
  ws :: "nat option"
  token :: "string option"
  authenticated :: bool
  reconnectAttempts :: nat
  reconnectInterval :: nat
  heartbeatInterval :: "nat option"
  reconnectTimeout :: "nat option"
  eventHandlers :: "string \<rightharpoonup> handler list"
  connectionState :: conn_state
  sockets :: "socket list"
  promises :: "promise list"
  timers :: "timer list"
  next_timer :: nat
  microtasks :: "nat list"
  trace :: "obs list"
  consumer_throws :: "nat \<Rightarrow> jsval \<Rightarrow> bool"

text \<open>The two private fields that are never assigned after their initialiser.\<close>

definition maxReconnectAttempts :: nat where
  "maxReconnectAttempts = 10"

definition maxReconnectInterval :: nat where
  "maxReconnectInterval = 30000"

text \<open>The field initialisers and the constructor.\<close>

definition new_client :: "(nat \<Rightarrow> jsval \<Rightarrow> bool) \<Rightarrow> client" where
  "new_client thr =
     \<lparr> ws = None, token = None, authenticated = False,
       reconnectAttempts = 0, reconnectInterval = 1000,
       heartbeatInterval = None, reconnectTimeout = None,
       eventHandlers = Map.empty, connectionState = Disconnected,
       sockets = [], promises = [], timers = [], next_timer = 0,
       microtasks = [], trace = [], consumer_throws = thr \<rparr>"

text \<open>A callback either returns or throws; both leave a state behind.\<close>

datatype outcome = Returned client | Threw client

fun world_of :: "outcome \<Rightarrow> client" where
  "world_of (Returned w) = w"
| "world_of (Threw w) = w"

definition and_then :: "outcome \<Rightarrow> (client \<Rightarrow> outcome) \<Rightarrow> outcome" where
  "and_then r f = (case r of Returned w \<Rightarrow> f w | Threw w \<Rightarrow> Threw w)"

definition emits :: "obs \<Rightarrow> client \<Rightarrow> client" where
  "emits e w = w\<lparr>trace := trace w @ [e]\<rparr>"

subsection \<open>Timers and promises\<close>

text \<open>\<open>setTimeout\<close> and \<open>setInterval\<close>: the handle returned is \<open>next_timer\<close> before the call.\<close>

definition set_timer :: "timer_kind \<Rightarrow> nat \<Rightarrow> client \<Rightarrow> client" where
  "set_timer k ms w =
     w\<lparr>timers := timers w @ [\<lparr>tid = next_timer w, kind = k, delay = ms\<rparr>],
       next_timer := Suc (next_timer w)\<rparr>"

text \<open>\<open>clearTimeout\<close> and \<open>clearInterval\<close>.\<close>

definition clear_timer :: "nat \<Rightarrow> client \<Rightarrow> client" where
  "clear_timer h w = w\<lparr>timers := filter (\<lambda>t. tid t \<noteq> h) (timers w)\<rparr>"

text \<open>
  \<open>resolve\<close> and \<open>reject\<close> of promise \<open>p\<close>: only the first call has an effect, and it
  queues the reaction.
\<close>

definition settle :: "nat \<Rightarrow> pstate \<Rightarrow> client \<Rightarrow> client" where
  "settle p r w =
     (if p < length (promises w) \<and> status (promises w ! p) = Pending
      then w\<lparr>promises := (promises w)[p := (promises w ! p)\<lparr>status := r\<rparr>],
             microtasks := microtasks w @ [p]\<rparr>
      else w)"

definition new_promise :: "reaction \<Rightarrow> client \<Rightarrow> client" where
  "new_promise r w = w\<lparr>promises := promises w @ [\<lparr>status = Pending, reaction = r\<rparr>]\<rparr>"

subsection \<open>The subscription registry: \<open>on\<close>, \<open>off\<close>, \<open>emit\<close>\<close>

text \<open>
  \<open>eventHandlers\<close> is a \<open>Map<string, Set<WSEventHandler>>\<close>. A \<open>Set\<close> iterates in
  insertion order, so it is a list kept free of duplicates by \<open>set_add\<close>.
\<close>

definition set_add :: "handler \<Rightarrow> handler list \<Rightarrow> handler list" where
  "set_add h hs = (if h \<in> set hs then hs else hs @ [h])"

definition set_delete :: "handler \<Rightarrow> handler list \<Rightarrow> handler list" where
  "set_delete h hs = removeAll h hs"

definition handlers_of :: "client \<Rightarrow> string \<Rightarrow> handler list" where
  "handlers_of w t = (case eventHandlers w t of None \<Rightarrow> [] | Some hs \<Rightarrow> hs)"

definition on :: "string \<Rightarrow> handler \<Rightarrow> client \<Rightarrow> client" where
  "on eventType h w =
     emits (Registered eventType h)
       (w\<lparr>eventHandlers := (eventHandlers w)(eventType \<mapsto> set_add h (handlers_of w eventType))\<rparr>)"

definition off :: "string \<Rightarrow> handler \<Rightarrow> client \<Rightarrow> client" where
  "off eventType h w =
     (case eventHandlers w eventType of
        None \<Rightarrow> w
      | Some hs \<Rightarrow>
          (if set_delete h hs = []
           then w\<lparr>eventHandlers := (eventHandlers w)(eventType := None)\<rparr>
           else w\<lparr>eventHandlers := (eventHandlers w)(eventType \<mapsto> set_delete h hs)\<rparr>))"

definition isConnected :: "client \<Rightarrow> bool" where
  "isConnected w = (connectionState w = Authenticated)"

definition getConnectionState :: "client \<Rightarrow> string" where
  "getConnectionState w = state_name (connectionState w)"

text \<open>The two listeners of \<open>authenticate\<close>.\<close>

definition handleAuthResponse :: "nat \<Rightarrow> nat \<Rightarrow> client \<Rightarrow> client" where
  "handleAuthResponse a tm w =
     (let w1 = clear_timer tm w;
          w2 = off ''auth_success'' (HandleAuthResponse a tm) w1;
          w3 = off ''auth_error'' (HandleAuthError a tm) w2;
          w4 = w3\<lparr>authenticated := True, connectionState := Authenticated\<rparr>
      in settle a Fulfilled w4)"

definition handleAuthError :: "nat \<Rightarrow> nat \<Rightarrow> jsval \<Rightarrow> client \<Rightarrow> outcome" where
  "handleAuthError a tm d w =
     (let w1 = clear_timer tm w;
          w2 = off ''auth_success'' (HandleAuthResponse a tm) w1;
          w3 = off ''auth_error'' (HandleAuthError a tm) w2
      in if d = JNull then Threw w3
         else Returned
           (settle a (Rejected (or_else (get_prop d ''message'') (JStr ''Authentication failed''))) w3))"

text \<open>
  Calling a handler. What a consumer's function does outside the client is not part of
  the model: it is called (which the trace records) and it returns or throws, as
  \<open>consumer_throws\<close> says.
\<close>

fun call_handler :: "string \<Rightarrow> handler \<Rightarrow> jsval \<Rightarrow> client \<Rightarrow> outcome" where
  "call_handler t (Consumer c) d w =
     (if consumer_throws w c d
      then Threw (emits (Invoked t (Consumer c) d) w)
      else Returned (emits (Invoked t (Consumer c) d) w))"
| "call_handler t (HandleAuthResponse a tm) d w =
     Returned (handleAuthResponse a tm (emits (Invoked t (HandleAuthResponse a tm) d) w))"
| "call_handler t (HandleAuthError a tm) d w =
     handleAuthError a tm d (emits (Invoked t (HandleAuthError a tm) d) w)"

text \<open>The body of the \<open>forEach\<close> in \<open>emit\<close>: \<open>try { handler(data) } catch { console.error }\<close>.\<close>

definition guarded_call :: "string \<Rightarrow> jsval \<Rightarrow> handler \<Rightarrow> client \<Rightarrow> outcome" where
  "guarded_call t d h w =
     (case call_handler t h d w of
        Returned w' \<Rightarrow> Returned w'
      | Threw w' \<Rightarrow> Returned (emits (HandlerError t h) w'))"

text \<open>
  \<open>Set.prototype.forEach\<close> over the elements \<open>hs\<close> the set had when the loop started: an
  element deleted before its turn is skipped, and a callback that throws ends the loop.
\<close>

fun forEach :: "(handler \<Rightarrow> client \<Rightarrow> outcome) \<Rightarrow> string \<Rightarrow> handler list \<Rightarrow> client \<Rightarrow> outcome" where
  "forEach f t [] w = Returned w"
| "forEach f t (h # hs) w =
     (if h \<in> set (handlers_of w t)
      then (case f h w of Returned w' \<Rightarrow> forEach f t hs w' | Threw w' \<Rightarrow> Threw w')
      else forEach f t hs w)"

definition emit :: "string \<Rightarrow> jsval \<Rightarrow> client \<Rightarrow> outcome" where
  "emit eventType d w =
     (case eventHandlers w eventType of
        None \<Rightarrow> Returned w
      | Some hs \<Rightarrow> forEach (guarded_call eventType d) eventType hs w)"

subsection \<open>Sending, heartbeat, reconnection\<close>

definition ready_of :: "client \<Rightarrow> nat \<Rightarrow> ready_state" where
  "ready_of w i = (if i < length (sockets w) then readyState (sockets w ! i) else CLOSED)"

text \<open>\<open>this.ws && this.ws.readyState === WebSocket.OPEN\<close>\<close>

definition ws_is_open :: "client \<Rightarrow> bool" where
  "ws_is_open w = (case ws w of None \<Rightarrow> False | Some i \<Rightarrow> ready_of w i = OPEN)"

definition send :: "jsval \<Rightarrow> client \<Rightarrow> client" where
  "send message w =
     (case ws w of
        None \<Rightarrow> emits (SendDropped message) w
      | Some i \<Rightarrow>
          if ready_of w i = OPEN then emits (WireSend i message) w
          else emits (SendDropped message) w)"

definition stopHeartbeat :: "client \<Rightarrow> client" where
  "stopHeartbeat w =
     (case heartbeatInterval w of
        None \<Rightarrow> w
      | Some h \<Rightarrow> (clear_timer h w)\<lparr>heartbeatInterval := None\<rparr>)"

definition startHeartbeat :: "client \<Rightarrow> client" where
  "startHeartbeat w =
     (let w1 = stopHeartbeat w
      in (set_timer HeartbeatTimer 25000 w1)\<lparr>heartbeatInterval := Some (next_timer w1)\<rparr>)"

text \<open>The callback of the heartbeat interval.\<close>

definition heartbeat_tick :: "client \<Rightarrow> client" where
  "heartbeat_tick w =
     (if authenticated w then send (JObj [(''type'', JStr ''ping'')]) w else w)"

definition clearReconnectTimeout :: "client \<Rightarrow> client" where
  "clearReconnectTimeout w =
     (case reconnectTimeout w of
        None \<Rightarrow> w
      | Some h \<Rightarrow> (clear_timer h w)\<lparr>reconnectTimeout := None\<rparr>)"

text \<open>
  \<open>attemptReconnect\<close> up to the \<open>setTimeout\<close>; the callback of that timer is
  \<open>reconnect_timeout\<close> below, the \<open>catch\<close> of its promise is \<open>reconnect_failed\<close>.
\<close>

definition attemptReconnect :: "client \<Rightarrow> outcome" where
  "attemptReconnect w =
     (if maxReconnectAttempts \<le> reconnectAttempts w
      then emit ''max_reconnect_attempts_reached''
             (JObj [(''attempts'', JNum (int (reconnectAttempts w)))]) w
      else
        (let w1 = w\<lparr>reconnectAttempts := reconnectAttempts w + 1\<rparr>
         in and_then
              (emit ''reconnecting''
                 (JObj [(''attempt'', JNum (int (reconnectAttempts w1))),
                        (''maxAttempts'', JNum (int maxReconnectAttempts)),
                        (''delay'', JNum (int (reconnectInterval w1)))]) w1)
              (\<lambda>w2. let w3 = clearReconnectTimeout w2
                    in Returned ((set_timer ReconnectTimer (reconnectInterval w3) w3)
                                   \<lparr>reconnectTimeout := Some (next_timer w3)\<rparr>))))"

definition reconnect_failed :: "client \<Rightarrow> outcome" where
  "reconnect_failed w =
     attemptReconnect
       (w\<lparr>reconnectInterval := min (reconnectInterval w * 2) maxReconnectInterval\<rparr>)"

subsection \<open>\<open>connect\<close>, \<open>disconnect\<close> and the listeners of the socket\<close>

text \<open>
  \<open>connect\<close> makes the promise \<open>length (promises w)\<close>, to which the caller attaches the
  reaction \<open>r\<close>. \<open>ctor\<close> is what \<open>new WebSocket(this.url)\<close> throws, if it throws.
\<close>

definition connect :: "string \<Rightarrow> jsval option \<Rightarrow> reaction \<Rightarrow> client \<Rightarrow> client" where
  "connect tok ctor r w0 =
     (let p = length (promises w0);
          w = new_promise r w0
      in if connectionState w = Connected \<or> connectionState w = Authenticated
         then settle p Fulfilled w
         else
           (let w1 = w\<lparr>token := Some tok, connectionState := Connecting\<rparr>
            in case ctor of
                 Some e \<Rightarrow> settle p (Rejected e) (w1\<lparr>connectionState := Disconnected\<rparr>)
               | None \<Rightarrow>
                   w1\<lparr>sockets := sockets w1 @ [\<lparr>readyState = CONNECTING, owner = p\<rparr>],
                      ws := Some (length (sockets w1))\<rparr>))"

definition set_ready :: "nat \<Rightarrow> ready_state \<Rightarrow> client \<Rightarrow> client" where
  "set_ready i r w =
     (if i < length (sockets w)
      then w\<lparr>sockets := (sockets w)[i := (sockets w ! i)\<lparr>readyState := r\<rparr>]\<rparr>
      else w)"

text \<open>What \<open>close()\<close> does to a socket.\<close>

definition socket_close :: "nat \<Rightarrow> client \<Rightarrow> client" where
  "socket_close i w =
     (if ready_of w i = CONNECTING \<or> ready_of w i = OPEN then set_ready i CLOSING w else w)"

definition disconnect :: "client \<Rightarrow> client" where
  "disconnect w =
     (let w1 = w\<lparr>authenticated := False, connectionState := Disconnected\<rparr>;
          w2 = stopHeartbeat w1;
          w3 = clearReconnectTimeout w2
      in case ws w3 of
           None \<Rightarrow> w3
         | Some i \<Rightarrow> (socket_close i (emits (WireClose i 1000) w3))\<lparr>ws := None\<rparr>)"

text \<open>\<open>!this.token\<close> is also true of the empty string.\<close>

definition authenticate :: "reaction \<Rightarrow> client \<Rightarrow> client" where
  "authenticate r w0 =
     (let a = length (promises w0);
          w = new_promise r w0;
          failed = settle a
            (Rejected (JStr ''No token or connection available for authentication'')) w
      in case token w of
           None \<Rightarrow> failed
         | Some tok \<Rightarrow>
             if tok = [] \<or> ws w = None then failed
             else
               (let tm = next_timer w;
                    w1 = set_timer (AuthTimer a) 5000 w;
                    w2 = on ''auth_success'' (HandleAuthResponse a tm) w1;
                    w3 = on ''auth_error'' (HandleAuthError a tm) w2
                in send (JObj [(''type'', JStr ''auth''), (''token'', JStr tok)]) w3))"

text \<open>The callback of the timeout inside \<open>authenticate\<close>.\<close>

definition auth_timeout :: "nat \<Rightarrow> client \<Rightarrow> client" where
  "auth_timeout a w = settle a (Rejected (JStr ''Authentication timeout'')) w"

text \<open>\<open>ws.onopen\<close>; \<open>p\<close> is the promise whose \<open>resolve\<close> and \<open>reject\<close> the listeners hold.\<close>

definition onopen :: "nat \<Rightarrow> client \<Rightarrow> client" where
  "onopen p w =
     set_timer (SettleTimer p) 100
       (w\<lparr>connectionState := Connected, reconnectAttempts := 0, reconnectInterval := 1000\<rparr>)"

text \<open>The callback of the 100 ms timeout set by \<open>onopen\<close>.\<close>

definition settle_timeout :: "nat \<Rightarrow> client \<Rightarrow> client" where
  "settle_timeout p w =
     (if ws_is_open w then authenticate (AuthChain p) w
      else settle p (Rejected (JStr ''WebSocket closed before authentication'')) w)"

definition handleMessage :: "jsval \<Rightarrow> client \<Rightarrow> outcome" where
  "handleMessage message w =
     (if message = JNull then Threw w
      else if get_prop message ''type'' = Some (JStr ''pong'') then Returned w
      else
        (case get_prop message ''type'' of
           Some (JStr t) \<Rightarrow> emit t (or_else (get_prop message ''data'') message) w
         | _ \<Rightarrow> Returned w))"

text \<open>\<open>ws.onmessage\<close>; \<open>parsed\<close> is the result of \<open>JSON.parse\<close>, \<open>None\<close> when it throws.\<close>

definition onmessage :: "jsval option \<Rightarrow> client \<Rightarrow> client" where
  "onmessage parsed w =
     (case parsed of
        None \<Rightarrow> emits ParseFailed w
      | Some m \<Rightarrow>
          (case handleMessage m w of
             Returned w' \<Rightarrow> w'
           | Threw w' \<Rightarrow> emits ParseFailed w'))"

definition onerror :: "nat \<Rightarrow> client \<Rightarrow> outcome" where
  "onerror p w =
     and_then (emit ''error'' (JObj [(''error'', JStr ''Connection error'')]) w)
       (\<lambda>w1. Returned
          (if connectionState w1 = Connecting
           then settle p (Rejected (JStr ''Failed to connect to WebSocket'')) w1
           else w1))"

definition onclose :: "nat \<Rightarrow> string \<Rightarrow> client \<Rightarrow> outcome" where
  "onclose code reason w =
     (let wasAuthenticated = authenticated w;
          w1 = stopHeartbeat
                 (w\<lparr>authenticated := False, connectionState := Disconnected, ws := None\<rparr>)
      in and_then
           (emit ''disconnected''
              (JObj [(''code'', JNum (int code)), (''reason'', JStr reason)]) w1)
           (\<lambda>w2. if code \<noteq> 1000 \<and> wasAuthenticated then attemptReconnect w2
                 else Returned w2))"

text \<open>The callback of the timeout set by \<open>attemptReconnect\<close>.\<close>

definition reconnect_timeout :: "jsval option \<Rightarrow> client \<Rightarrow> client" where
  "reconnect_timeout ctor w =
     (case token w of
        None \<Rightarrow> w
      | Some tok \<Rightarrow> if tok = [] then w else connect tok ctor ByReconnect w)"

subsection \<open>Reactions of promises\<close>

text \<open>
  The reaction attached to promise \<open>p\<close>, run once \<open>p\<close> is settled. An exception thrown in
  the \<open>then\<close> of \<open>attemptReconnect\<close> would reach its \<open>catch\<close>.
\<close>

definition run_reaction :: "nat \<Rightarrow> client \<Rightarrow> outcome" where
  "run_reaction p w =
     (if p < length (promises w)
      then
        (case status (promises w ! p) of
           Pending \<Rightarrow> Returned w
         | Fulfilled \<Rightarrow>
             (case reaction (promises w ! p) of
                ByCaller \<Rightarrow> Returned (emits (ConnectResult p Fulfilled) w)
              | ByReconnect \<Rightarrow>
                  (case emit ''reconnected''
                          (JObj [(''attempts'', JNum (int (reconnectAttempts w)))]) w of
                     Returned w' \<Rightarrow> Returned w'
                   | Threw w' \<Rightarrow> reconnect_failed w')
              | AuthChain c \<Rightarrow> Returned (settle c Fulfilled (startHeartbeat w)))
         | Rejected e \<Rightarrow>
             (case reaction (promises w ! p) of
                ByCaller \<Rightarrow> Returned (emits (ConnectResult p (Rejected e)) w)
              | ByReconnect \<Rightarrow> reconnect_failed w
              | AuthChain c \<Rightarrow> Returned (settle c (Rejected e) w)))
      else Returned w)"

subsection \<open>Running the queued reactions\<close>

text \<open>
  The reactions queued while a callback ran are run in order once it has returned; a
  reaction may settle further promises. No reaction creates a promise and each promise
  settles once, which bounds the loop.
\<close>

definition pending :: "promise list \<Rightarrow> nat" where
  "pending ps = length (filter (\<lambda>p. status p = Pending) ps)"

definition mu :: "client \<Rightarrow> nat" where
  "mu w = 2 * pending (promises w) + length (microtasks w)"

lemma pending_update:
  assumes "i < length ps" "status (ps ! i) = Pending" "r \<noteq> Pending"
  shows "Suc (pending (ps[i := (ps ! i)\<lparr>status := r\<rparr>])) = pending ps"
proof -
  have ps: "ps = take i ps @ (ps ! i) # drop (Suc i) ps"
    using assms(1) by (simp add: id_take_nth_drop)
  have "ps[i := (ps ! i)\<lparr>status := r\<rparr>] = take i ps @ ((ps ! i)\<lparr>status := r\<rparr>) # drop (Suc i) ps"
    using assms(1) by (simp add: upd_conv_take_nth_drop)
  then have "pending (ps[i := (ps ! i)\<lparr>status := r\<rparr>])
      = pending (take i ps) + pending (drop (Suc i) ps)"
    using assms(3) by (simp add: pending_def)
  moreover have "pending ps = pending (take i ps) + Suc (pending (drop (Suc i) ps))"
    by (subst ps) (simp add: pending_def assms(2))
  ultimately show ?thesis by simp
qed

lemma mu_settle: "r \<noteq> Pending \<Longrightarrow> mu (settle p r w) < mu w \<or> settle p r w = w"
  using pending_update[of p "promises w" r]
  by (auto simp: settle_def mu_def)

lemma mu_settle_le: "r \<noteq> Pending \<Longrightarrow> mu (settle p r w) \<le> mu w"
  using mu_settle[of r p w] by auto

lemma mu_emits [simp]: "mu (emits e w) = mu w"
  by (simp add: mu_def emits_def)

lemma mu_clear_timer [simp]: "mu (clear_timer h w) = mu w"
  by (simp add: mu_def clear_timer_def)

lemma mu_set_timer [simp]: "mu (set_timer k ms w) = mu w"
  by (simp add: mu_def set_timer_def)

lemma mu_on [simp]: "mu (on t h w) = mu w"
  by (simp add: mu_def on_def emits_def)

lemma mu_off [simp]: "mu (off t h w) = mu w"
  by (simp add: mu_def off_def split: option.splits)

lemma mu_handleAuthResponse: "mu (handleAuthResponse a tm w) \<le> mu w"
proof -
  have "mu (handleAuthResponse a tm w) \<le> mu ((off ''auth_error'' (HandleAuthError a tm)
          (off ''auth_success'' (HandleAuthResponse a tm) (clear_timer tm w)))
            \<lparr>authenticated := True, connectionState := Authenticated\<rparr>)"
    unfolding handleAuthResponse_def Let_def by (rule mu_settle_le) simp
  also have "\<dots> = mu w" by (simp add: mu_def) (simp add: mu_def[symmetric])
  finally show ?thesis .
qed

lemma mu_handleAuthError: "mu (world_of (handleAuthError a tm d w)) \<le> mu w"
proof (cases "d = JNull")
  case True
  then show ?thesis by (simp add: handleAuthError_def)
next
  case False
  have "mu (settle a (Rejected (or_else (get_prop d ''message'') (JStr ''Authentication failed'')))
          (off ''auth_error'' (HandleAuthError a tm)
          (off ''auth_success'' (HandleAuthResponse a tm) (clear_timer tm w))))
       \<le> mu (off ''auth_error'' (HandleAuthError a tm)
          (off ''auth_success'' (HandleAuthResponse a tm) (clear_timer tm w)))"
    by (rule mu_settle_le) simp
  then show ?thesis using False by (simp add: handleAuthError_def)
qed

lemma mu_call_handler: "mu (world_of (call_handler t h d w)) \<le> mu w"
proof (cases h)
  case (Consumer c)
  then show ?thesis by simp
next
  case (HandleAuthResponse a tm)
  then show ?thesis using mu_handleAuthResponse[of a tm "emits (Invoked t h d) w"] by simp
next
  case (HandleAuthError a tm)
  then show ?thesis using mu_handleAuthError[of a tm d "emits (Invoked t h d) w"] by simp
qed

lemma mu_guarded_call: "mu (world_of (guarded_call t d h w)) \<le> mu w"
  using mu_call_handler[of t h d w]
  by (cases "call_handler t h d w") (simp_all add: guarded_call_def)

lemma mu_forEach:
  assumes "\<And>h w. mu (world_of (f h w)) \<le> mu w"
  shows "mu (world_of (forEach f t hs w)) \<le> mu w"
proof (induction hs arbitrary: w)
  case Nil
  then show ?case by simp
next
  case (Cons h hs)
  show ?case
  proof (cases "h \<in> set (handlers_of w t)")
    case False
    then show ?thesis using Cons.IH[of w] by simp
  next
    case True
    show ?thesis
    proof (cases "f h w")
      case (Returned w')
      then have "mu w' \<le> mu w" using assms[of h w] by simp
      moreover have "mu (world_of (forEach f t hs w')) \<le> mu w'" by (rule Cons.IH)
      ultimately show ?thesis using True Returned by simp
    next
      case (Threw w')
      then show ?thesis using True assms[of h w] by simp
    qed
  qed
qed

lemma mu_emit: "mu (world_of (emit t d w)) \<le> mu w"
  by (cases "eventHandlers w t") (simp_all add: emit_def mu_forEach mu_guarded_call)


lemma mu_clearReconnectTimeout [simp]: "mu (clearReconnectTimeout w) = mu w"
  by (cases "reconnectTimeout w") (simp_all add: clearReconnectTimeout_def mu_def clear_timer_def)

lemma mu_stopHeartbeat [simp]: "mu (stopHeartbeat w) = mu w"
  by (cases "heartbeatInterval w") (simp_all add: stopHeartbeat_def mu_def clear_timer_def)

lemma mu_startHeartbeat [simp]: "mu (startHeartbeat w) = mu w"
proof -
  have "mu (startHeartbeat w) = mu (set_timer HeartbeatTimer 25000 (stopHeartbeat w))"
    by (simp add: startHeartbeat_def Let_def mu_def)
  then show ?thesis by simp
qed

lemma mu_and_then:
  assumes "\<And>w'. mu (world_of (f w')) \<le> mu w'"
  shows "mu (world_of (and_then r f)) \<le> mu (world_of r)"
  using assms by (cases r) (simp_all add: and_then_def)

lemma mu_attemptReconnect: "mu (world_of (attemptReconnect w)) \<le> mu w"
proof (cases "maxReconnectAttempts \<le> reconnectAttempts w")
  case True
  then show ?thesis by (simp add: attemptReconnect_def mu_emit)
next
  case False
  show ?thesis
    apply (simp only: attemptReconnect_def Let_def False if_False)
    apply (rule order_trans[OF mu_and_then])
     apply (simp add: mu_def set_timer_def)
     apply (simp add: mu_def[symmetric])
    apply (rule order_trans[OF mu_emit])
    apply (simp add: mu_def)
    done
qed

lemma mu_reconnect_failed: "mu (world_of (reconnect_failed w)) \<le> mu w"
proof -
  have "mu (world_of (reconnect_failed w))
        \<le> mu (w\<lparr>reconnectInterval := min (reconnectInterval w * 2) maxReconnectInterval\<rparr>)"
    unfolding reconnect_failed_def by (rule mu_attemptReconnect)
  then show ?thesis by (simp add: mu_def)
qed

lemma mu_run_reaction: "mu (world_of (run_reaction p w)) \<le> mu w"
proof (cases "p < length (promises w)")
  case False
  then show ?thesis by (simp add: run_reaction_def)
next
  case True
  show ?thesis
  proof (cases "status (promises w ! p)")
    case Pending
    then show ?thesis using True by (simp add: run_reaction_def)
  next
    case Fulfilled
    show ?thesis
    proof (cases "reaction (promises w ! p)")
      case ByCaller
      then show ?thesis using True Fulfilled by (simp add: run_reaction_def)
    next
      case ByReconnect
      define d where "d = JObj [(''attempts'', JNum (int (reconnectAttempts w)))]"
      have e: "mu (world_of (emit ''reconnected'' d w)) \<le> mu w" by (rule mu_emit)
      show ?thesis
      proof (cases "emit ''reconnected'' d w")
        case (Returned w')
        then show ?thesis using True Fulfilled ByReconnect e
          by (simp add: run_reaction_def d_def[symmetric])
      next
        case (Threw w')
        then show ?thesis using True Fulfilled ByReconnect e mu_reconnect_failed[of w']
          by (simp add: run_reaction_def d_def[symmetric])
      qed
    next
      case (AuthChain c)
      have "mu (settle c Fulfilled (startHeartbeat w)) \<le> mu (startHeartbeat w)"
        by (rule mu_settle_le) simp
      then show ?thesis using True Fulfilled AuthChain by (simp add: run_reaction_def)
    qed
  next
    case (Rejected e)
    show ?thesis
    proof (cases "reaction (promises w ! p)")
      case ByCaller
      then show ?thesis using True Rejected by (simp add: run_reaction_def)
    next
      case ByReconnect
      then show ?thesis using True Rejected mu_reconnect_failed[of w]
        by (simp add: run_reaction_def)
    next
      case (AuthChain c)
      have "mu (settle c (Rejected e) w) \<le> mu w"
        by (rule mu_settle_le) simp
      then show ?thesis using True Rejected AuthChain by (simp add: run_reaction_def)
    qed
  qed
qed

function drain :: "client \<Rightarrow> client" where
  "drain w =
     (case microtasks w of
        [] \<Rightarrow> w
      | p # ps \<Rightarrow> drain (world_of (run_reaction p (w\<lparr>microtasks := ps\<rparr>))))"
  by pat_completeness auto
termination
proof (relation "measure mu")
  show "wf (measure mu)" by simp
next
  fix w :: client and p ps
  assume q: "microtasks w = p # ps"
  have "mu (world_of (run_reaction p (w\<lparr>microtasks := ps\<rparr>))) \<le> mu (w\<lparr>microtasks := ps\<rparr>)"
    by (rule mu_run_reaction)
  also have "\<dots> < mu w" using q by (simp add: mu_def)
  finally show "(world_of (run_reaction p (w\<lparr>microtasks := ps\<rparr>)), w) \<in> measure mu"
    by simp
qed

declare drain.simps [simp del]

lemma drain_Nil: "microtasks w = [] \<Longrightarrow> drain w = w"
  by (subst drain.simps) simp

lemma drain_Cons:
  "microtasks w = p # ps \<Longrightarrow> drain w = drain (world_of (run_reaction p (w\<lparr>microtasks := ps\<rparr>)))"
  by (subst drain.simps) simp

lemma microtasks_drain: "microtasks (drain w) = []"
proof (induction w rule: drain.induct)
  case (1 w)
  show ?case
  proof (cases "microtasks w")
    case Nil
    then show ?thesis by (simp add: drain_Nil)
  next
    case (Cons p ps)
    then show ?thesis using "1.IH"[OF Cons] by (simp add: drain_Cons[OF Cons])
  qed
qed


subsection \<open>Events\<close>

text \<open>
  What can happen to the client: a call of its public interface, an event of one of its
  sockets, or a timer firing. \<open>CallOn\<close> and \<open>CallOff\<close> pass a consumer's function. The
  \<open>jsval option\<close> of \<open>CallConnect\<close> and \<open>TimerFires\<close> is what \<open>new WebSocket\<close> throws
  should the callback reach it.
\<close>

datatype event =
    CallConnect string "jsval option"
  | CallDisconnect
  | CallOn string nat
  | CallOff string nat
  | SocketOpen nat
  | SocketMessage nat "jsval option"
  | SocketError nat
  | SocketClose nat nat string
  | TimerFires nat "jsval option"

definition find_timer :: "nat \<Rightarrow> client \<Rightarrow> timer option" where
  "find_timer h w = find (\<lambda>t. tid t = h) (timers w)"

text \<open>A timeout is gone once it fires; the heartbeat interval stays.\<close>

definition fire :: "timer \<Rightarrow> jsval option \<Rightarrow> client \<Rightarrow> client" where
  "fire t ctor w =
     (case kind t of
        HeartbeatTimer \<Rightarrow> heartbeat_tick w
      | SettleTimer p \<Rightarrow> settle_timeout p (clear_timer (tid t) w)
      | AuthTimer a \<Rightarrow> auth_timeout a (clear_timer (tid t) w)
      | ReconnectTimer \<Rightarrow> reconnect_timeout ctor (clear_timer (tid t) w))"

text \<open>
  The callback an event runs. A socket delivers \<open>open\<close> once, while connecting; messages
  while it is open; \<open>close\<close> once. An event that cannot happen changes nothing.
\<close>

definition callback :: "event \<Rightarrow> client \<Rightarrow> client" where
  "callback e w =
     (case e of
        CallConnect tok ctor \<Rightarrow> connect tok ctor ByCaller w
      | CallDisconnect \<Rightarrow> disconnect w
      | CallOn t c \<Rightarrow> on t (Consumer c) w
      | CallOff t c \<Rightarrow> off t (Consumer c) w
      | SocketOpen i \<Rightarrow>
          if i < length (sockets w) \<and> ready_of w i = CONNECTING
          then onopen (owner (sockets w ! i)) (set_ready i OPEN w) else w
      | SocketMessage i parsed \<Rightarrow>
          if i < length (sockets w) \<and> ready_of w i = OPEN
          then onmessage parsed w else w
      | SocketError i \<Rightarrow>
          if i < length (sockets w) \<and> ready_of w i \<noteq> CLOSED
          then world_of (onerror (owner (sockets w ! i)) w) else w
      | SocketClose i code reason \<Rightarrow>
          if i < length (sockets w) \<and> ready_of w i \<noteq> CLOSED
          then world_of (onclose code reason (set_ready i CLOSED w)) else w
      | TimerFires h ctor \<Rightarrow>
          (case find_timer h w of None \<Rightarrow> w | Some t \<Rightarrow> fire t ctor w))"

definition step :: "event \<Rightarrow> client \<Rightarrow> client" where
  "step e w = drain (callback e w)"

fun run :: "event list \<Rightarrow> client \<Rightarrow> client" where
  "run [] w = w"
| "run (e # es) w = run es (step e w)"

text \<open>The delays of the reconnect timers that are pending.\<close>

definition reconnect_delays :: "client \<Rightarrow> nat list" where
  "reconnect_delays w = map delay (filter (\<lambda>t. kind t = ReconnectTimer) (timers w))"

section \<open>Properties\<close>

subsection \<open>The dispatcher\<close>

text \<open>Handlers registered from outside the class.\<close>

fun is_consumer :: "handler \<Rightarrow> bool" where
  "is_consumer (Consumer c) = True"
| "is_consumer h = False"

definition quiet :: "client \<Rightarrow> string \<Rightarrow> bool" where
  "quiet w t = list_all is_consumer (handlers_of w t)"

fun consumer_calls :: "(nat \<Rightarrow> jsval \<Rightarrow> bool) \<Rightarrow> string \<Rightarrow> jsval \<Rightarrow> handler list \<Rightarrow> obs list" where
  "consumer_calls thr t d [] = []"
| "consumer_calls thr t d (Consumer c # hs) =
     (if thr c d then [Invoked t (Consumer c) d, HandlerError t (Consumer c)]
      else [Invoked t (Consumer c) d]) @ consumer_calls thr t d hs"
| "consumer_calls thr t d (h # hs) = consumer_calls thr t d hs"

fun is_invocation :: "obs \<Rightarrow> bool" where
  "is_invocation (Invoked t h d) = True"
| "is_invocation e = False"

definition logs :: "obs list \<Rightarrow> client \<Rightarrow> client" where
  "logs es w = w\<lparr>trace := trace w @ es\<rparr>"

lemma guarded_call_returns: "\<exists>w'. guarded_call t d h w = Returned w'"
  by (cases "call_handler t h d w") (simp_all add: guarded_call_def)

lemma forEach_returns:
  assumes "\<And>h w. \<exists>w'. f h w = Returned w'"
  shows "\<exists>w'. forEach f t hs w = Returned w'"
proof (induction hs arbitrary: w)
  case Nil
  show ?case by simp
next
  case (Cons h hs)
  obtain w1 where "f h w = Returned w1" using assms by blast
  then show ?case using Cons.IH[of w1] Cons.IH[of w] by simp
qed

lemma emit_returns: "\<exists>w'. emit t d w = Returned w'"
  by (cases "eventHandlers w t") (simp_all add: emit_def forEach_returns guarded_call_returns)

lemma handlers_of_logs [simp]: "handlers_of (logs es w) t = handlers_of w t"
  by (simp add: handlers_of_def logs_def)

lemma logs_logs [simp]: "logs es' (logs es w) = logs (es @ es') w"
  by (simp add: logs_def)

lemma logs_Nil [simp]: "logs [] w = w"
  by (simp add: logs_def)

lemma guarded_call_consumer:
  "guarded_call t d (Consumer c) w = Returned (logs (consumer_calls (consumer_throws w) t d [Consumer c]) w)"
  by (simp add: guarded_call_def logs_def emits_def)

lemma forEach_consumers:
  "list_all is_consumer hs \<Longrightarrow> set hs \<subseteq> set (handlers_of w t) \<Longrightarrow>
   forEach (guarded_call t d) t hs w = Returned (logs (consumer_calls (consumer_throws w) t d hs) w)"
proof (induction hs arbitrary: w)
  case Nil
  show ?case by simp
next
  case (Cons h hs)
  from Cons.prems obtain c where h: "h = Consumer c" by (cases h) simp_all
  let ?w1 = "logs (consumer_calls (consumer_throws w) t d [Consumer c]) w"
  have "forEach (guarded_call t d) t hs ?w1
        = Returned (logs (consumer_calls (consumer_throws ?w1) t d hs) ?w1)"
    using Cons.prems by (intro Cons.IH) simp_all
  moreover have "consumer_throws ?w1 = consumer_throws w" by (simp add: logs_def)
  ultimately show ?case using Cons.prems h by (simp add: guarded_call_consumer)
qed

lemma emit_quiet:
  "quiet w t \<Longrightarrow> emit t d w = Returned (logs (consumer_calls (consumer_throws w) t d (handlers_of w t)) w)"
  by (cases "eventHandlers w t") (simp_all add: emit_def quiet_def handlers_of_def forEach_consumers)

lemma invocations_consumer_calls:
  "list_all is_consumer hs \<Longrightarrow>
   filter is_invocation (consumer_calls thr t d hs) = map (\<lambda>h. Invoked t h d) hs"
  by (induction thr t d hs rule: consumer_calls.induct) simp_all

lemma count_consumer_calls:
  "length (filter (\<lambda>e. e = Invoked t (Consumer c) d) (consumer_calls thr t d hs))
   = count_list hs (Consumer c)"
  by (induction thr t d hs rule: consumer_calls.induct) auto


fun is_registry_call :: "event \<Rightarrow> bool" where
  "is_registry_call (CallOn t c) = True"
| "is_registry_call (CallOff t c) = True"
| "is_registry_call e = False"

definition registry_ok :: "client \<Rightarrow> bool" where
  "registry_ok w \<longleftrightarrow>
     microtasks w = [] \<and> filter is_invocation (trace w) = [] \<and>
     (\<forall>t hs. eventHandlers w t = Some hs \<longrightarrow> hs \<noteq> [] \<and> distinct hs \<and> list_all is_consumer hs)"

lemma registry_ok_new: "registry_ok (new_client thr)"
  by (simp add: registry_ok_def new_client_def)

lemma registry_ok_on: "registry_ok w \<Longrightarrow> registry_ok (on t (Consumer c) w)"
  by (auto simp: registry_ok_def on_def emits_def set_add_def handlers_of_def list_all_iff
      split: option.splits if_splits)

lemma registry_ok_off: "registry_ok w \<Longrightarrow> registry_ok (off t h w)"
  by (auto simp: registry_ok_def off_def set_delete_def list_all_iff distinct_removeAll
      split: option.splits if_splits)

lemma registry_ok_step:
  "registry_ok w \<Longrightarrow> is_registry_call e \<Longrightarrow> registry_ok (step e w)"
proof (cases e)
  case (CallOn t c)
  assume ok: "registry_ok w"
  then have "microtasks (on t (Consumer c) w) = []"
    using registry_ok_on[OF ok, of t c] by (simp add: registry_ok_def)
  then show ?thesis using ok CallOn by (simp add: step_def callback_def drain_Nil registry_ok_on)
next
  case (CallOff t c)
  assume ok: "registry_ok w"
  then have "microtasks (off t (Consumer c) w) = []"
    using registry_ok_off[OF ok, of t "Consumer c"] by (simp add: registry_ok_def)
  then show ?thesis using ok CallOff by (simp add: step_def callback_def drain_Nil registry_ok_off)
qed simp_all

lemma registry_ok_run:
  "registry_ok w \<Longrightarrow> list_all is_registry_call es \<Longrightarrow> registry_ok (run es w)"
  by (induction es arbitrary: w) (simp_all add: registry_ok_step)

lemma count_list_distinct: "distinct hs \<Longrightarrow> h \<in> set hs \<Longrightarrow> count_list hs h = 1"
  by (induction hs) auto

lemma on_on_handlers: "eventHandlers (on t h (on t h w)) = eventHandlers (on t h w)"
  by (simp add: on_def emits_def handlers_of_def set_add_def)

lemma handlers_of_on:
  "handlers_of (on t h w) t' = (if t' = t then set_add h (handlers_of w t) else handlers_of w t')"
  by (simp add: on_def emits_def handlers_of_def)

lemma off_off: "off t h (off t h w) = off t h w"
  by (cases "eventHandlers w t") (simp_all add: off_def set_delete_def)

lemma off_absent:
  assumes "eventHandlers w t = Some hs" "hs \<noteq> []" "h \<notin> set hs"
  shows "off t h w = w"
proof -
  have "(eventHandlers w)(t \<mapsto> hs) = eventHandlers w"
    using assms(1) by (simp add: map_upd_triv)
  then show ?thesis using assms by (simp add: off_def set_delete_def)
qed

lemma off_entry:
  "eventHandlers w t = Some hs \<Longrightarrow>
   eventHandlers (off t h w) t = (if set hs \<subseteq> {h} then None else Some (removeAll h hs))"
  by (auto simp: off_def set_delete_def removeAll_filter_not_eq filter_empty_conv)

text \<open>
  Claim C7. After any sequence of \<open>on\<close>/\<open>off\<close> calls on a new client, for every event
  type and every consumer's handler: registering the handler twice leaves the registry as
  registering it once does, and an emitted event of that type calls it exactly once;
  \<open>off\<close> of a handler that is not registered changes nothing, and \<open>off\<close> twice is \<open>off\<close>
  once; \<open>off\<close> deletes the entry of the type when no handler is left, keeps the other
  handlers otherwise, and no entry ever holds an empty set.
\<close>

theorem registry_set_semantics:
  assumes "list_all is_registry_call es"
  shows "(let r = run es (new_client thr);
              h = Consumer c;
              w2 = on t h (on t h r)
         in eventHandlers w2 = eventHandlers (on t h r)
          \<and> length (filter (\<lambda>e. e = Invoked t h d) (trace (world_of (emit t d w2)))) = 1
          \<and> (h \<notin> set (handlers_of r t) \<longrightarrow> off t h r = r)
          \<and> off t h (off t h r) = off t h r
          \<and> (set (handlers_of r t) \<subseteq> {h} \<longrightarrow> eventHandlers (off t h r) t = None)
          \<and> (\<not> set (handlers_of r t) \<subseteq> {h} \<longrightarrow>
               eventHandlers (off t h r) t = Some (removeAll h (handlers_of r t)))
          \<and> eventHandlers r t \<noteq> Some [])"
proof -
  define r where "r = run es (new_client thr)"
  define h where "h = Consumer c"
  define w1 where "w1 = on t h r"
  define w2 where "w2 = on t h w1"
  have ok: "registry_ok r"
    unfolding r_def using registry_ok_new assms by (rule registry_ok_run)
  have ok2: "registry_ok w2"
    unfolding w2_def w1_def h_def by (intro registry_ok_on ok)
  have entry: "eventHandlers r t = Some hs \<Longrightarrow> hs \<noteq> [] \<and> distinct hs \<and> list_all is_consumer hs" for hs
    using ok by (simp add: registry_ok_def)
  have a: "eventHandlers w2 = eventHandlers w1"
    unfolding w2_def w1_def by (rule on_on_handlers)
  have q2: "quiet w2 t"
    using ok2 by (cases "eventHandlers w2 t") (simp_all add: quiet_def handlers_of_def registry_ok_def)
  have d2: "distinct (handlers_of w2 t)"
    using ok2 by (cases "eventHandlers w2 t") (simp_all add: handlers_of_def registry_ok_def)
  have m2: "h \<in> set (handlers_of w2 t)"
    by (simp add: w2_def w1_def handlers_of_on set_add_def)
  have "trace (world_of (emit t d w2))
        = trace w2 @ consumer_calls (consumer_throws w2) t d (handlers_of w2 t)"
    by (simp add: emit_quiet[OF q2] logs_def)
  moreover have "filter (\<lambda>e. e = Invoked t h d) (trace w2) = []"
  proof -
    have "filter is_invocation (trace w2) = []" using ok2 by (simp add: registry_ok_def)
    then show ?thesis by (auto simp: filter_empty_conv)
  qed
  moreover have "count_list (handlers_of w2 t) h = 1"
    using d2 m2 by (rule count_list_distinct)
  ultimately have b: "length (filter (\<lambda>e. e = Invoked t h d) (trace (world_of (emit t d w2)))) = 1"
    by (simp add: h_def count_consumer_calls)
  have c: "h \<notin> set (handlers_of r t) \<longrightarrow> off t h r = r"
  proof (cases "eventHandlers r t")
    case None
    then show ?thesis by (simp add: off_def)
  next
    case (Some hs)
    then show ?thesis using entry[OF Some] by (auto simp: handlers_of_def intro: off_absent)
  qed
  have e: "set (handlers_of r t) \<subseteq> {h} \<longrightarrow> eventHandlers (off t h r) t = None"
    by (cases "eventHandlers r t") (simp_all add: off_entry handlers_of_def, simp add: off_def)
  have f: "\<not> set (handlers_of r t) \<subseteq> {h} \<longrightarrow>
               eventHandlers (off t h r) t = Some (removeAll h (handlers_of r t))"
    by (cases "eventHandlers r t") (simp_all add: off_entry handlers_of_def)
  have g: "eventHandlers r t \<noteq> Some []"
    using entry by blast
  show ?thesis
    unfolding Let_def r_def[symmetric] h_def[symmetric] w1_def[symmetric] w2_def[symmetric]
    using a b c e f g off_off[of t h r] by (simp add: w1_def)
qed


fun proper_place :: "string \<Rightarrow> handler \<Rightarrow> bool" where
  "proper_place t (Consumer c) = True"
| "proper_place t (HandleAuthResponse a tm) = (t = ''auth_success'')"
| "proper_place t (HandleAuthError a tm) = (t = ''auth_error'')"

definition registry_wf :: "client \<Rightarrow> bool" where
  "registry_wf w \<longleftrightarrow>
     (\<forall>t. distinct (handlers_of w t) \<and> list_all (proper_place t) (handlers_of w t))"

fun is_handler_error :: "obs \<Rightarrow> bool" where
  "is_handler_error (HandlerError t h) = True"
| "is_handler_error e = False"

definition without_errors :: "client \<Rightarrow> client" where
  "without_errors w =
     w\<lparr>trace := filter (\<lambda>e. \<not> is_handler_error e) (trace w),
       consumer_throws := (\<lambda>c d. False)\<rparr>"

lemma handlers_of_off:
  "handlers_of (off t h w) t' = (if t' = t then removeAll h (handlers_of w t) else handlers_of w t')"
  by (cases "eventHandlers w t") (simp_all add: off_def handlers_of_def set_delete_def)

lemma trace_off [simp]: "trace (off t h w) = trace w"
  by (cases "eventHandlers w t") (simp_all add: off_def)

lemma trace_clear_timer [simp]: "trace (clear_timer h w) = trace w"
  by (simp add: clear_timer_def)

lemma trace_settle [simp]: "trace (settle p r w) = trace w"
  by (simp add: settle_def)

lemma handlers_of_clear_timer [simp]: "handlers_of (clear_timer h w) t = handlers_of w t"
  by (simp add: clear_timer_def handlers_of_def)

lemma handlers_of_settle [simp]: "handlers_of (settle p r w) t = handlers_of w t"
  by (simp add: settle_def handlers_of_def)

lemma handlers_of_emits [simp]: "handlers_of (emits e w) t = handlers_of w t"
  by (simp add: emits_def handlers_of_def)

lemma trace_emits [simp]: "trace (emits e w) = trace w @ [e]"
  by (simp add: emits_def)

lemma handlers_of_handleAuthResponse:
  "handlers_of (handleAuthResponse a tm w) t =
     (if t = ''auth_success'' then removeAll (HandleAuthResponse a tm) (handlers_of w t)
      else if t = ''auth_error'' then removeAll (HandleAuthError a tm) (handlers_of w t)
      else handlers_of w t)"
proof -
  have "handlers_of (handleAuthResponse a tm w) t
        = handlers_of (off ''auth_error'' (HandleAuthError a tm)
            (off ''auth_success'' (HandleAuthResponse a tm) (clear_timer tm w))) t"
    by (simp add: handleAuthResponse_def Let_def) (simp add: handlers_of_def)
  then show ?thesis by (simp add: handlers_of_off)
qed

lemma trace_handleAuthResponse [simp]: "trace (handleAuthResponse a tm w) = trace w"
  by (simp add: handleAuthResponse_def Let_def)

lemma handlers_of_handleAuthError:
  "handlers_of (world_of (handleAuthError a tm d w)) t =
     (if t = ''auth_success'' then removeAll (HandleAuthResponse a tm) (handlers_of w t)
      else if t = ''auth_error'' then removeAll (HandleAuthError a tm) (handlers_of w t)
      else handlers_of w t)"
  by (simp add: handleAuthError_def Let_def handlers_of_off)

lemma trace_handleAuthError [simp]: "trace (world_of (handleAuthError a tm d w)) = trace w"
  by (simp add: handleAuthError_def Let_def)

lemma consumer_throws_emits [simp]: "consumer_throws (emits e w) = consumer_throws w"
  by (simp add: emits_def)

text \<open>What one guarded call does to the trace and to the registry.\<close>

definition after_call :: "string \<Rightarrow> jsval \<Rightarrow> handler \<Rightarrow> client \<Rightarrow> client" where
  "after_call t d h w = world_of (guarded_call t d h w)"

lemma guarded_call_after: "guarded_call t d h w = Returned (after_call t d h w)"
  by (cases "call_handler t h d w") (simp_all add: guarded_call_def after_call_def)

lemma after_call_trace:
  "\<exists>es. trace (after_call t d h w) = trace w @ Invoked t h d # es
     \<and> filter is_invocation es = []
     \<and> (\<forall>c. h = Consumer c \<and> consumer_throws w c d \<longrightarrow> HandlerError t h \<in> set es)"
proof (cases h)
  case (Consumer c)
  then show ?thesis by (simp add: after_call_def guarded_call_def)
next
  case (HandleAuthResponse a tm)
  then show ?thesis by (simp add: after_call_def guarded_call_def)
next
  case (HandleAuthError a tm)
  then show ?thesis
    by (cases "d = JNull") (simp_all add: after_call_def guarded_call_def handleAuthError_def Let_def)
qed

lemma after_call_handlers:
  "handlers_of (after_call t d h w) t' =
     (case h of
        Consumer c \<Rightarrow> handlers_of w t'
      | HandleAuthResponse a tm \<Rightarrow>
          if t' = ''auth_success'' then removeAll h (handlers_of w t')
          else if t' = ''auth_error'' then removeAll (HandleAuthError a tm) (handlers_of w t')
          else handlers_of w t'
      | HandleAuthError a tm \<Rightarrow>
          if t' = ''auth_success'' then removeAll (HandleAuthResponse a tm) (handlers_of w t')
          else if t' = ''auth_error'' then removeAll h (handlers_of w t')
          else handlers_of w t')"
proof (cases h)
  case (Consumer c)
  then show ?thesis by (simp add: after_call_def guarded_call_def)
next
  case (HandleAuthResponse a tm)
  then show ?thesis by (simp add: after_call_def guarded_call_def handlers_of_handleAuthResponse)
next
  case (HandleAuthError a tm)
  then show ?thesis
    by (cases "d = JNull")
       (simp_all add: after_call_def guarded_call_def handleAuthError_def Let_def handlers_of_off)
qed

lemma after_call_throws [simp]: "consumer_throws (after_call t d h w) = consumer_throws w"
proof (cases h)
  case (Consumer c)
  then show ?thesis by (simp add: after_call_def guarded_call_def)
next
  case (HandleAuthResponse a tm)
  then show ?thesis
    by (simp add: after_call_def guarded_call_def handleAuthResponse_def Let_def settle_def
        off_def clear_timer_def split: option.splits)
next
  case (HandleAuthError a tm)
  then show ?thesis
    by (cases "d = JNull")
       (simp_all add: after_call_def guarded_call_def handleAuthError_def Let_def settle_def
        off_def clear_timer_def split: option.splits)
qed

lemma registry_wf_after_call:
  assumes "registry_wf w"
  shows "registry_wf (after_call t d h w)"
  unfolding registry_wf_def
proof (intro allI conjI)
  fix t'
  have d: "distinct (handlers_of w t')" and p: "list_all (proper_place t') (handlers_of w t')"
    using assms by (simp_all add: registry_wf_def)
  show "distinct (handlers_of (after_call t d h w) t')"
    using d by (cases h) (auto simp: after_call_handlers distinct_removeAll)
  show "list_all (proper_place t') (handlers_of (after_call t d h w) t')"
    using p by (cases h) (auto simp: after_call_handlers list_all_iff)
qed

lemma after_call_keeps:
  assumes "registry_wf w" "h \<in> set (handlers_of w t)" "h' \<in> set (handlers_of w t)" "h' \<noteq> h"
  shows "h' \<in> set (handlers_of (after_call t d h w) t)"
proof -
  have p: "proper_place t h" "proper_place t h'"
    using assms by (auto simp: registry_wf_def list_all_iff)
  show ?thesis
  proof (cases h)
    case (Consumer c)
    then show ?thesis using assms by (simp add: after_call_handlers)
  next
    case (HandleAuthResponse a tm)
    then have "t = ''auth_success''" using p by simp
    then show ?thesis using assms HandleAuthResponse by (simp add: after_call_handlers)
  next
    case (HandleAuthError a tm)
    then have "t = ''auth_error''" using p by simp
    then show ?thesis using assms HandleAuthError by (simp add: after_call_handlers)
  qed
qed

lemma forEach_invocations:
  assumes "registry_wf w" "distinct hs" "set hs \<subseteq> set (handlers_of w t)"
  shows "\<exists>es. trace (world_of (forEach (guarded_call t d) t hs w)) = trace w @ es
     \<and> filter is_invocation es = map (\<lambda>h. Invoked t h d) hs
     \<and> (\<forall>c. Consumer c \<in> set hs \<and> consumer_throws w c d \<longrightarrow> HandlerError t (Consumer c) \<in> set es)
     \<and> registry_wf (world_of (forEach (guarded_call t d) t hs w))"
  using assms
proof (induction hs arbitrary: w)
  case Nil
  then show ?case by simp
next
  case (Cons h hs)
  let ?w1 = "after_call t d h w"
  have live: "h \<in> set (handlers_of w t)" using Cons.prems by simp
  have wf1: "registry_wf ?w1" using Cons.prems(1) by (rule registry_wf_after_call)
  have sub: "set hs \<subseteq> set (handlers_of ?w1 t)"
  proof
    fix h' assume h': "h' \<in> set hs"
    then have "h' \<noteq> h" "h' \<in> set (handlers_of w t)" using Cons.prems by auto
    then show "h' \<in> set (handlers_of ?w1 t)"
      using after_call_keeps[OF Cons.prems(1) live] by blast
  qed
  obtain es1 where e1: "trace ?w1 = trace w @ Invoked t h d # es1"
      "filter is_invocation es1 = []"
      "\<forall>c. h = Consumer c \<and> consumer_throws w c d \<longrightarrow> HandlerError t h \<in> set es1"
    using after_call_trace[of t d h w] by blast
  obtain es2 where e2: "trace (world_of (forEach (guarded_call t d) t hs ?w1)) = trace ?w1 @ es2"
      "filter is_invocation es2 = map (\<lambda>h. Invoked t h d) hs"
      "\<forall>c. Consumer c \<in> set hs \<and> consumer_throws ?w1 c d \<longrightarrow> HandlerError t (Consumer c) \<in> set es2"
      "registry_wf (world_of (forEach (guarded_call t d) t hs ?w1))"
    using Cons.IH[OF wf1 _ sub] Cons.prems(2) by auto
  have run: "forEach (guarded_call t d) t (h # hs) w = forEach (guarded_call t d) t hs ?w1"
    using live by (simp add: guarded_call_after)
  show ?case
  proof (intro exI[of _ "Invoked t h d # es1 @ es2"] conjI)
    show "trace (world_of (forEach (guarded_call t d) t (h # hs) w))
          = trace w @ Invoked t h d # es1 @ es2"
      using run e1(1) e2(1) by simp
    show "filter is_invocation (Invoked t h d # es1 @ es2) = map (\<lambda>h. Invoked t h d) (h # hs)"
      using e1(2) e2(2) by simp
    show "\<forall>c. Consumer c \<in> set (h # hs) \<and> consumer_throws w c d
             \<longrightarrow> HandlerError t (Consumer c) \<in> set (Invoked t h d # es1 @ es2)"
      using e1(3) e2(3) by auto
    show "registry_wf (world_of (forEach (guarded_call t d) t (h # hs) w))"
      using run e2(4) by simp
  qed
qed

lemma emit_invocations:
  assumes "registry_wf w"
  shows "\<exists>es. trace (world_of (emit t d w)) = trace w @ es
     \<and> filter is_invocation es = map (\<lambda>h. Invoked t h d) (handlers_of w t)
     \<and> (\<forall>c. Consumer c \<in> set (handlers_of w t) \<and> consumer_throws w c d
            \<longrightarrow> HandlerError t (Consumer c) \<in> set es)
     \<and> registry_wf (world_of (emit t d w))"
proof (cases "eventHandlers w t")
  case None
  then show ?thesis using assms by (simp add: emit_def handlers_of_def)
next
  case (Some hs)
  then have hs: "handlers_of w t = hs" by (simp add: handlers_of_def)
  have "distinct hs" using assms hs by (auto simp: registry_wf_def)
  then show ?thesis
    using forEach_invocations[OF assms, of hs t d] Some hs by (simp add: emit_def)
qed


lemma handlers_of_without_errors [simp]: "handlers_of (without_errors w) t = handlers_of w t"
  by (simp add: without_errors_def handlers_of_def)

lemma without_errors_idem [simp]: "without_errors (without_errors w) = without_errors w"
  by (simp add: without_errors_def)

lemma without_errors_clear_timer:
  "without_errors (clear_timer h w) = clear_timer h (without_errors w)"
  by (simp add: without_errors_def clear_timer_def)

lemma without_errors_off: "without_errors (off t h w) = off t h (without_errors w)"
  by (cases "eventHandlers w t") (simp_all add: without_errors_def off_def)

lemma without_errors_settle: "without_errors (settle p r w) = settle p r (without_errors w)"
  by (simp add: without_errors_def settle_def)

lemma without_errors_emits:
  "without_errors (emits e w)
   = (if is_handler_error e then without_errors w else emits e (without_errors w))"
  by (simp add: without_errors_def emits_def)

lemma without_errors_handleAuthResponse:
  "without_errors (handleAuthResponse a tm w) = handleAuthResponse a tm (without_errors w)"
proof -
  have "without_errors (w'\<lparr>authenticated := True, connectionState := Authenticated\<rparr>)
        = (without_errors w')\<lparr>authenticated := True, connectionState := Authenticated\<rparr>" for w'
    by (simp add: without_errors_def)
  then show ?thesis
    by (simp add: handleAuthResponse_def Let_def without_errors_settle without_errors_off
        without_errors_clear_timer)
qed

lemma without_errors_handleAuthError:
  "without_errors (world_of (handleAuthError a tm d w))
   = world_of (handleAuthError a tm d (without_errors w))"
  by (simp add: handleAuthError_def Let_def without_errors_settle without_errors_off
      without_errors_clear_timer)

lemma after_call_auth_error:
  "after_call t d (HandleAuthError a tm) w =
     (if d = JNull
      then emits (HandlerError t (HandleAuthError a tm))
             (world_of (handleAuthError a tm d (emits (Invoked t (HandleAuthError a tm) d) w)))
      else world_of (handleAuthError a tm d (emits (Invoked t (HandleAuthError a tm) d) w)))"
  by (simp add: after_call_def guarded_call_def handleAuthError_def Let_def)

lemma without_errors_after_call:
  "without_errors (after_call t d h w) = without_errors (after_call t d h (without_errors w))"
proof (cases h)
  case (Consumer c)
  then show ?thesis
    by (simp add: after_call_def guarded_call_def without_errors_def emits_def)
next
  case (HandleAuthResponse a tm)
  then show ?thesis
    by (simp add: after_call_def guarded_call_def without_errors_handleAuthResponse
        without_errors_emits)
next
  case (HandleAuthError a tm)
  then show ?thesis
    by (simp add: after_call_auth_error without_errors_handleAuthError without_errors_emits)
qed

lemma forEach_live:
  "h \<in> set (handlers_of w t) \<Longrightarrow>
   forEach (guarded_call t d) t (h # hs) w = forEach (guarded_call t d) t hs (after_call t d h w)"
  using guarded_call_after[of t d h w] by (simp del: guarded_call_after)

lemma without_errors_forEach:
  "without_errors (world_of (forEach (guarded_call t d) t hs w))
   = without_errors (world_of (forEach (guarded_call t d) t hs (without_errors w)))"
proof (induction hs arbitrary: w)
  case Nil
  show ?case by simp
next
  case (Cons h hs)
  show ?case
  proof (cases "h \<in> set (handlers_of w t)")
    case False
    then show ?thesis using Cons.IH[of w] by simp
  next
    case True
    then have True': "h \<in> set (handlers_of (without_errors w) t)" by simp
    have "without_errors (world_of (forEach (guarded_call t d) t hs (after_call t d h w)))
          = without_errors (world_of (forEach (guarded_call t d) t hs
              (without_errors (after_call t d h w))))"
      by (rule Cons.IH)
    also have "\<dots> = without_errors (world_of (forEach (guarded_call t d) t hs
              (without_errors (after_call t d h (without_errors w)))))"
      by (simp only: without_errors_after_call[of t d h w])
    also have "\<dots> = without_errors (world_of (forEach (guarded_call t d) t hs
              (after_call t d h (without_errors w))))"
      by (rule Cons.IH[symmetric])
    finally show ?thesis by (simp only: forEach_live[OF True] forEach_live[OF True'])
  qed
qed

lemma without_errors_emit:
  "without_errors (world_of (emit t d w)) = without_errors (world_of (emit t d (without_errors w)))"
proof (cases "eventHandlers w t")
  case None
  then show ?thesis by (simp add: emit_def without_errors_def)
next
  case (Some hs)
  then have "eventHandlers (without_errors w) t = Some hs" by (simp add: without_errors_def)
  then show ?thesis using Some without_errors_forEach[of t d hs w] by (simp add: emit_def)
qed

lemma emit_world: "emit t d w = Returned (world_of (emit t d w))"
  using emit_returns[of t d w] by auto

text \<open>
  Claim C8. A handler that throws inside \<open>emit\<close> is caught and logged by the dispatcher:
  \<open>emit\<close> always returns to its caller; apart from the logged errors, the state after an
  \<open>emit\<close> is the state it would have left had no consumer thrown, so that later events of
  any type are delivered as they would have been; and when the registry is well formed
  every handler registered for the type is called, once, in registration order, whether
  or not an earlier one threw, each throwing consumer's error being logged.
\<close>

theorem emit_isolates_handler_failures:
  "emit t d w = Returned (world_of (emit t d w))
   \<and> without_errors (world_of (emit t d w)) = without_errors (world_of (emit t d (without_errors w)))
   \<and> (registry_wf w \<longrightarrow>
        registry_wf (world_of (emit t d w)) \<and>
        (\<exists>es. trace (world_of (emit t d w)) = trace w @ es
           \<and> filter is_invocation es = map (\<lambda>h. Invoked t h d) (handlers_of w t)
           \<and> (\<forall>c. Consumer c \<in> set (handlers_of w t) \<and> consumer_throws w c d
                 \<longrightarrow> HandlerError t (Consumer c) \<in> set es)))"
  using emit_world[of t d w] without_errors_emit[of t d w] emit_invocations[of w t d]
  by blast


definition w8 :: client where
  "w8 = run [CallOn ''progress'' 1, CallOn ''progress'' 2, CallOn ''scan_status'' 3]
          (new_client (\<lambda>c d. c = 1))"

lemmas model_defs = new_client_def step_def callback_def connect_def new_promise_def settle_def
  onopen_def set_ready_def ready_of_def set_timer_def clear_timer_def find_timer_def fire_def
  settle_timeout_def ws_is_open_def authenticate_def on_def off_def set_add_def set_delete_def
  handlers_of_def emits_def send_def onmessage_def handleMessage_def emit_def guarded_call_def
  handleAuthResponse_def handleAuthError_def or_else_def run_reaction_def startHeartbeat_def
  stopHeartbeat_def onclose_def and_then_def attemptReconnect_def clearReconnectTimeout_def
  maxReconnectAttempts_def maxReconnectInterval_def reconnect_delays_def reconnect_failed_def
  reconnect_timeout_def auth_timeout_def onerror_def disconnect_def socket_close_def
  heartbeat_tick_def drain_Nil drain_Cons Let_def

lemma w8_wf: "registry_wf w8"
  by (simp add: registry_wf_def w8_def model_defs)

theorem emit_isolates_handler_failures_witness:
  "registry_wf w8
   \<and> consumer_throws w8 1 JNull
   \<and> handlers_of w8 ''progress'' = [Consumer 1, Consumer 2]
   \<and> emit ''progress'' JNull w8 = Returned (world_of (emit ''progress'' JNull w8))
   \<and> drop (length (trace w8)) (trace (world_of (emit ''progress'' JNull w8)))
       = [Invoked ''progress'' (Consumer 1) JNull, HandlerError ''progress'' (Consumer 1),
          Invoked ''progress'' (Consumer 2) JNull]
   \<and> drop (length (trace (world_of (emit ''progress'' JNull w8))))
        (trace (world_of (emit ''scan_status'' JNull (world_of (emit ''progress'' JNull w8)))))
       = [Invoked ''scan_status'' (Consumer 3) JNull]"
proof -
  have "emit ''progress'' JNull w8 = Returned (world_of (emit ''progress'' JNull w8))"
    using emit_isolates_handler_failures[of "''progress''" JNull w8] by blast
  then show ?thesis using w8_wf by (simp add: w8_def model_defs)
qed

text \<open>
  Claim C9. An inbound frame whose type is \<open>pong\<close> is intercepted before dispatch:
  \<open>handleMessage\<close> returns at once, the message callback leaves the whole state as it
  was (no handler of any event type is called, nothing is logged), and so does the step.
\<close>

theorem pong_never_dispatched:
  assumes "get_prop m ''type'' = Some (JStr ''pong'')"
  shows "handleMessage m w = Returned w
       \<and> callback (SocketMessage i (Some m)) w = w
       \<and> (microtasks w = [] \<longrightarrow> step (SocketMessage i (Some m)) w = w)"
proof -
  have "m \<noteq> JNull" using assms by auto
  then have h: "handleMessage m w = Returned w" using assms by (simp add: handleMessage_def)
  then have c: "callback (SocketMessage i (Some m)) w = w"
    by (simp add: callback_def onmessage_def)
  then show ?thesis using h by (simp add: step_def drain_Nil)
qed

definition w9 :: client where
  "w9 = run [CallOn ''pong'' 3, CallConnect ''tok'' None, SocketOpen 0]
          (new_client (\<lambda>c d. False))"

theorem pong_never_dispatched_witness:
  "get_prop (JObj [(''type'', JStr ''pong'')]) ''type'' = Some (JStr ''pong'')
   \<and> handlers_of w9 ''pong'' = [Consumer 3]
   \<and> ready_of w9 0 = OPEN
   \<and> microtasks w9 = []
   \<and> trace (step (SocketMessage 0 (Some (JObj [(''type'', JStr ''pong'')]))) w9) = trace w9"
proof -
  have m: "microtasks w9 = []" by (simp add: w9_def model_defs)
  have "step (SocketMessage 0 (Some (JObj [(''type'', JStr ''pong'')]))) w9 = w9"
    using pong_never_dispatched[of "JObj [(''type'', JStr ''pong'')]" w9 0] m by simp
  then show ?thesis using m by (simp add: w9_def model_defs)
qed

definition w7 :: client where
  "w7 = run [CallOn ''progress'' 1, CallOn ''progress'' 2, CallOff ''progress'' 1]
          (new_client (\<lambda>c d. False))"

theorem registry_set_semantics_witness:
  "list_all is_registry_call [CallOn ''progress'' 1, CallOn ''progress'' 2, CallOff ''progress'' 1]
   \<and> handlers_of w7 ''progress'' = [Consumer 2]
   \<and> length (filter (\<lambda>e. e = Invoked ''progress'' (Consumer 4) JNull)
        (trace (world_of (emit ''progress'' JNull
           (on ''progress'' (Consumer 4) (on ''progress'' (Consumer 4) w7)))))) = 1
   \<and> off ''progress'' (Consumer 5) w7 = w7
   \<and> eventHandlers (off ''progress'' (Consumer 2) w7) ''progress'' = None"
proof -
  have l: "list_all is_registry_call
             [CallOn ''progress'' 1, CallOn ''progress'' 2, CallOff ''progress'' 1]"
    by simp
  have h: "handlers_of w7 ''progress'' = [Consumer 2]"
    by (simp add: w7_def model_defs)
  note t1 = registry_set_semantics[OF l, of "\<lambda>c d. False" 4 "''progress''" JNull]
  note t2 = registry_set_semantics[OF l, of "\<lambda>c d. False" 5 "''progress''" JNull]
  note t3 = registry_set_semantics[OF l, of "\<lambda>c d. False" 2 "''progress''" JNull]
  show ?thesis
    using t1 t2 t3 l h unfolding Let_def w7_def[symmetric] by simp
qed


subsection \<open>What each primitive leaves alone\<close>

lemma set_timer_frame [simp]:
  "ws (set_timer k ms w) = ws w" "token (set_timer k ms w) = token w"
  "authenticated (set_timer k ms w) = authenticated w"
  "reconnectAttempts (set_timer k ms w) = reconnectAttempts w"
  "reconnectInterval (set_timer k ms w) = reconnectInterval w"
  "heartbeatInterval (set_timer k ms w) = heartbeatInterval w"
  "reconnectTimeout (set_timer k ms w) = reconnectTimeout w"
  "eventHandlers (set_timer k ms w) = eventHandlers w"
  "connectionState (set_timer k ms w) = connectionState w"
  "sockets (set_timer k ms w) = sockets w" "promises (set_timer k ms w) = promises w"
  "microtasks (set_timer k ms w) = microtasks w" "trace (set_timer k ms w) = trace w"
  "consumer_throws (set_timer k ms w) = consumer_throws w"
  "timers (set_timer k ms w) = timers w @ [\<lparr>tid = next_timer w, kind = k, delay = ms\<rparr>]"
  "next_timer (set_timer k ms w) = Suc (next_timer w)"
  by (simp_all add: set_timer_def)

lemma clear_timer_frame [simp]:
  "ws (clear_timer h w) = ws w" "token (clear_timer h w) = token w"
  "authenticated (clear_timer h w) = authenticated w"
  "reconnectAttempts (clear_timer h w) = reconnectAttempts w"
  "reconnectInterval (clear_timer h w) = reconnectInterval w"
  "heartbeatInterval (clear_timer h w) = heartbeatInterval w"
  "reconnectTimeout (clear_timer h w) = reconnectTimeout w"
  "eventHandlers (clear_timer h w) = eventHandlers w"
  "connectionState (clear_timer h w) = connectionState w"
  "sockets (clear_timer h w) = sockets w" "promises (clear_timer h w) = promises w"
  "microtasks (clear_timer h w) = microtasks w"
  "consumer_throws (clear_timer h w) = consumer_throws w"
  "timers (clear_timer h w) = filter (\<lambda>t. tid t \<noteq> h) (timers w)"
  "next_timer (clear_timer h w) = next_timer w"
  by (simp_all add: clear_timer_def)

lemma stopHeartbeat_frame [simp]:
  "ws (stopHeartbeat w) = ws w" "token (stopHeartbeat w) = token w"
  "authenticated (stopHeartbeat w) = authenticated w"
  "reconnectAttempts (stopHeartbeat w) = reconnectAttempts w"
  "reconnectInterval (stopHeartbeat w) = reconnectInterval w"
  "heartbeatInterval (stopHeartbeat w) = None"
  "reconnectTimeout (stopHeartbeat w) = reconnectTimeout w"
  "eventHandlers (stopHeartbeat w) = eventHandlers w"
  "connectionState (stopHeartbeat w) = connectionState w"
  "sockets (stopHeartbeat w) = sockets w" "promises (stopHeartbeat w) = promises w"
  "microtasks (stopHeartbeat w) = microtasks w" "trace (stopHeartbeat w) = trace w"
  "consumer_throws (stopHeartbeat w) = consumer_throws w"
  "next_timer (stopHeartbeat w) = next_timer w"
  by (cases "heartbeatInterval w"; simp add: stopHeartbeat_def)+

lemma timers_stopHeartbeat:
  "timers (stopHeartbeat w) =
     (case heartbeatInterval w of None \<Rightarrow> timers w
      | Some h \<Rightarrow> filter (\<lambda>t. tid t \<noteq> h) (timers w))"
  by (cases "heartbeatInterval w") (simp_all add: stopHeartbeat_def)

lemma clearReconnectTimeout_frame [simp]:
  "ws (clearReconnectTimeout w) = ws w" "token (clearReconnectTimeout w) = token w"
  "authenticated (clearReconnectTimeout w) = authenticated w"
  "reconnectAttempts (clearReconnectTimeout w) = reconnectAttempts w"
  "reconnectInterval (clearReconnectTimeout w) = reconnectInterval w"
  "heartbeatInterval (clearReconnectTimeout w) = heartbeatInterval w"
  "reconnectTimeout (clearReconnectTimeout w) = None"
  "eventHandlers (clearReconnectTimeout w) = eventHandlers w"
  "connectionState (clearReconnectTimeout w) = connectionState w"
  "sockets (clearReconnectTimeout w) = sockets w" "promises (clearReconnectTimeout w) = promises w"
  "microtasks (clearReconnectTimeout w) = microtasks w" "trace (clearReconnectTimeout w) = trace w"
  "consumer_throws (clearReconnectTimeout w) = consumer_throws w"
  "next_timer (clearReconnectTimeout w) = next_timer w"
  by (cases "reconnectTimeout w"; simp add: clearReconnectTimeout_def)+

lemma timers_clearReconnectTimeout:
  "timers (clearReconnectTimeout w) =
     (case reconnectTimeout w of None \<Rightarrow> timers w
      | Some h \<Rightarrow> filter (\<lambda>t. tid t \<noteq> h) (timers w))"
  by (cases "reconnectTimeout w") (simp_all add: clearReconnectTimeout_def)

lemma set_ready_frame [simp]:
  "ws (set_ready i r w) = ws w" "token (set_ready i r w) = token w"
  "authenticated (set_ready i r w) = authenticated w"
  "reconnectAttempts (set_ready i r w) = reconnectAttempts w"
  "reconnectInterval (set_ready i r w) = reconnectInterval w"
  "heartbeatInterval (set_ready i r w) = heartbeatInterval w"
  "reconnectTimeout (set_ready i r w) = reconnectTimeout w"
  "eventHandlers (set_ready i r w) = eventHandlers w"
  "connectionState (set_ready i r w) = connectionState w"
  "promises (set_ready i r w) = promises w" "timers (set_ready i r w) = timers w"
  "microtasks (set_ready i r w) = microtasks w" "trace (set_ready i r w) = trace w"
  "consumer_throws (set_ready i r w) = consumer_throws w"
  "next_timer (set_ready i r w) = next_timer w"
  "length (sockets (set_ready i r w)) = length (sockets w)"
  by (simp_all add: set_ready_def)

lemma logs_frame [simp]:
  "ws (logs es w) = ws w" "token (logs es w) = token w"
  "authenticated (logs es w) = authenticated w"
  "reconnectAttempts (logs es w) = reconnectAttempts w"
  "reconnectInterval (logs es w) = reconnectInterval w"
  "heartbeatInterval (logs es w) = heartbeatInterval w"
  "reconnectTimeout (logs es w) = reconnectTimeout w"
  "eventHandlers (logs es w) = eventHandlers w"
  "connectionState (logs es w) = connectionState w"
  "sockets (logs es w) = sockets w" "promises (logs es w) = promises w"
  "timers (logs es w) = timers w" "next_timer (logs es w) = next_timer w"
  "microtasks (logs es w) = microtasks w" "trace (logs es w) = trace w @ es"
  "consumer_throws (logs es w) = consumer_throws w"
  by (simp_all add: logs_def)

lemma settle_frame [simp]:
  "ws (settle p r w) = ws w" "token (settle p r w) = token w"
  "authenticated (settle p r w) = authenticated w"
  "reconnectAttempts (settle p r w) = reconnectAttempts w"
  "reconnectInterval (settle p r w) = reconnectInterval w"
  "heartbeatInterval (settle p r w) = heartbeatInterval w"
  "reconnectTimeout (settle p r w) = reconnectTimeout w"
  "eventHandlers (settle p r w) = eventHandlers w"
  "connectionState (settle p r w) = connectionState w"
  "sockets (settle p r w) = sockets w" "timers (settle p r w) = timers w"
  "next_timer (settle p r w) = next_timer w"
  "consumer_throws (settle p r w) = consumer_throws w"
  "length (promises (settle p r w)) = length (promises w)"
  by (simp_all add: settle_def)

lemma quiet_eq: "eventHandlers w' = eventHandlers w \<Longrightarrow> quiet w' t = quiet w t"
  by (simp add: quiet_def handlers_of_def)

lemma handlers_of_eq: "eventHandlers w' = eventHandlers w \<Longrightarrow> handlers_of w' t = handlers_of w t"
  by (simp add: handlers_of_def)

text \<open>\<open>attemptReconnect\<close> when only consumers listen for its two notifications.\<close>

definition reconnecting_payload :: "client \<Rightarrow> jsval" where
  "reconnecting_payload w =
     JObj [(''attempt'', JNum (int (reconnectAttempts w + 1))),
           (''maxAttempts'', JNum (int maxReconnectAttempts)),
           (''delay'', JNum (int (reconnectInterval w)))]"

lemma attemptReconnect_quiet:
  assumes "quiet w ''reconnecting''" "quiet w ''max_reconnect_attempts_reached''"
  shows "attemptReconnect w = Returned
     (if maxReconnectAttempts \<le> reconnectAttempts w
      then logs (consumer_calls (consumer_throws w) ''max_reconnect_attempts_reached''
                   (JObj [(''attempts'', JNum (int (reconnectAttempts w)))])
                   (handlers_of w ''max_reconnect_attempts_reached'')) w
      else (set_timer ReconnectTimer (reconnectInterval w)
              (clearReconnectTimeout
                 (logs (consumer_calls (consumer_throws w) ''reconnecting''
                          (reconnecting_payload w) (handlers_of w ''reconnecting''))
                    (w\<lparr>reconnectAttempts := reconnectAttempts w + 1\<rparr>))))
             \<lparr>reconnectTimeout := Some (next_timer w)\<rparr>)"
proof (cases "maxReconnectAttempts \<le> reconnectAttempts w")
  case True
  then show ?thesis using assms(2) by (simp add: attemptReconnect_def emit_quiet)
next
  case False
  let ?w1 = "w\<lparr>reconnectAttempts := reconnectAttempts w + 1\<rparr>"
  have q: "quiet ?w1 ''reconnecting''" using assms(1) by (simp add: quiet_def handlers_of_def)
  have h: "handlers_of ?w1 ''reconnecting'' = handlers_of w ''reconnecting''"
    by (simp add: handlers_of_def)
  show ?thesis using False q h
    by (simp add: attemptReconnect_def Let_def emit_quiet and_then_def
        reconnecting_payload_def)
qed


subsection \<open>Closing, disconnecting and the reconnection timer\<close>

text \<open>
  The timers that are pending have distinct handles, all given out already, as are the
  handles the client holds; a pending timer is the heartbeat exactly when
  \<open>heartbeatInterval\<close> holds its handle, and a pending reconnect timeout is the one
  \<open>reconnectTimeout\<close> holds.
\<close>

definition timers_wf :: "client \<Rightarrow> bool" where
  "timers_wf w \<longleftrightarrow>
     distinct (map tid (timers w))
   \<and> (\<forall>t \<in> set (timers w).
        tid t < next_timer w
      \<and> (kind t = HeartbeatTimer \<longleftrightarrow> heartbeatInterval w = Some (tid t))
      \<and> (kind t = ReconnectTimer \<longrightarrow> reconnectTimeout w = Some (tid t)))
   \<and> (\<forall>h. heartbeatInterval w = Some h \<longrightarrow> h < next_timer w)
   \<and> (\<forall>h. reconnectTimeout w = Some h \<longrightarrow> h < next_timer w)"

definition close_payload :: "nat \<Rightarrow> string \<Rightarrow> jsval" where
  "close_payload code reason = JObj [(''code'', JNum (int code)), (''reason'', JStr reason)]"

lemma onclose_quiet:
  assumes "quiet w ''disconnected''"
  shows "onclose code reason w =
     (let w2 = logs (consumer_calls (consumer_throws w) ''disconnected''
                       (close_payload code reason) (handlers_of w ''disconnected''))
                 (stopHeartbeat
                    (w\<lparr>authenticated := False, connectionState := Disconnected, ws := None\<rparr>))
      in if code \<noteq> 1000 \<and> authenticated w then attemptReconnect w2 else Returned w2)"
proof -
  let ?w1 = "stopHeartbeat (w\<lparr>authenticated := False, connectionState := Disconnected, ws := None\<rparr>)"
  have q: "quiet ?w1 ''disconnected''" using assms by (simp add: quiet_def handlers_of_def)
  have h: "handlers_of ?w1 ''disconnected'' = handlers_of w ''disconnected''"
    by (simp add: handlers_of_def)
  show ?thesis
    by (simp add: onclose_def Let_def emit_quiet[OF q] h and_then_def close_payload_def)
qed

lemma step_close:
  assumes "microtasks w = []" "i < length (sockets w)" "ready_of w i \<noteq> CLOSED"
    "quiet w ''disconnected''" "quiet w ''reconnecting''"
    "quiet w ''max_reconnect_attempts_reached''"
  shows "step (SocketClose i code reason) w =
     (let w2 = logs (consumer_calls (consumer_throws w) ''disconnected''
                       (close_payload code reason) (handlers_of w ''disconnected''))
                 (stopHeartbeat
                    ((set_ready i CLOSED w)
                       \<lparr>authenticated := False, connectionState := Disconnected, ws := None\<rparr>))
      in if code \<noteq> 1000 \<and> authenticated w then world_of (attemptReconnect w2) else w2)"
proof -
  let ?ws = "set_ready i CLOSED w"
  have q: "quiet ?ws ''disconnected''" using assms(4) by (simp add: quiet_def handlers_of_def)
  have h: "handlers_of ?ws ''disconnected'' = handlers_of w ''disconnected''"
    by (simp add: handlers_of_def)
  let ?w2 = "logs (consumer_calls (consumer_throws w) ''disconnected''
                       (close_payload code reason) (handlers_of w ''disconnected''))
                 (stopHeartbeat
                    (?ws\<lparr>authenticated := False, connectionState := Disconnected, ws := None\<rparr>))"
  have q2: "quiet ?w2 ''reconnecting''" "quiet ?w2 ''max_reconnect_attempts_reached''"
    using assms(5,6) by (simp_all add: quiet_def handlers_of_def)
  have cb: "callback (SocketClose i code reason) w =
      (if code \<noteq> 1000 \<and> authenticated w then world_of (attemptReconnect ?w2) else ?w2)"
    using assms(2,3) by (simp add: callback_def onclose_quiet[OF q] h Let_def)
  have "microtasks (callback (SocketClose i code reason) w) = []"
    unfolding cb using assms(1) by (simp add: attemptReconnect_quiet[OF q2])
  then show ?thesis unfolding step_def Let_def cb[symmetric] by (simp add: drain_Nil)
qed


lemma no_heartbeat_after_stop:
  assumes "timers_wf w"
  shows "filter (\<lambda>t. kind t = HeartbeatTimer)
           (case heartbeatInterval w of None \<Rightarrow> timers w
            | Some h \<Rightarrow> filter (\<lambda>t. tid t \<noteq> h) (timers w)) = []"
  using assms by (cases "heartbeatInterval w") (auto simp: timers_wf_def filter_empty_conv)

lemma reconnect_kept_after_stop:
  assumes "timers_wf w"
  shows "filter (\<lambda>t. kind t = ReconnectTimer)
           (case heartbeatInterval w of None \<Rightarrow> timers w
            | Some h \<Rightarrow> filter (\<lambda>t. tid t \<noteq> h) (timers w))
         = filter (\<lambda>t. kind t = ReconnectTimer) (timers w)"
proof (cases "heartbeatInterval w")
  case None
  then show ?thesis by simp
next
  case (Some h)
  have "\<And>t. t \<in> set (timers w) \<Longrightarrow>
          (tid t \<noteq> h \<and> kind t = ReconnectTimer) = (kind t = ReconnectTimer)"
    using assms Some by (auto simp: timers_wf_def)
  then show ?thesis using Some by (simp cong: filter_cong add: conj_commute)
qed

lemma no_reconnect_after_clear:
  assumes "set xs \<subseteq> set (timers w)" "timers_wf w"
  shows "filter (\<lambda>t. kind t = ReconnectTimer)
           (case reconnectTimeout w of None \<Rightarrow> xs
            | Some h \<Rightarrow> filter (\<lambda>t. tid t \<noteq> h) xs) = []"
  using assms by (cases "reconnectTimeout w") (auto simp: timers_wf_def filter_empty_conv)

text \<open>
  Claim C5, as the code has it. \<open>connectionState\<close> has four values and none is
  \<open>reconnecting\<close>. When a socket closes with a code other than 1000 while
  \<open>authenticated\<close> is set (and only consumers listen for the three notifications), the
  client goes to \<open>disconnected\<close>, clears \<open>authenticated\<close> and \<open>ws\<close>, stops the heartbeat,
  calls every handler registered for \<open>disconnected\<close> with the code and the reason, and
  runs \<open>attemptReconnect\<close>: below the attempt limit it counts one more attempt, calls the
  \<open>reconnecting\<close> handlers and leaves exactly one reconnect timer pending, whose delay is
  the current interval; at the limit it calls the \<open>max_reconnect_attempts_reached\<close>
  handlers and schedules nothing.
\<close>

theorem unexpected_close_of_authenticated_session:
  assumes "microtasks w = []" "i < length (sockets w)" "ready_of w i \<noteq> CLOSED"
    "authenticated w" "code \<noteq> 1000"
    "quiet w ''disconnected''" "quiet w ''reconnecting''"
    "quiet w ''max_reconnect_attempts_reached''" "timers_wf w"
  shows "(let w' = step (SocketClose i code reason) w;
              told = consumer_calls (consumer_throws w) ''disconnected''
                       (close_payload code reason) (handlers_of w ''disconnected'')
          in connectionState w' = Disconnected
           \<and> getConnectionState w' = ''disconnected''
           \<and> getConnectionState w' \<noteq> ''reconnecting''
           \<and> \<not> authenticated w' \<and> ws w' = None
           \<and> heartbeatInterval w' = None
           \<and> filter (\<lambda>t. kind t = HeartbeatTimer) (timers w') = []
           \<and> (if reconnectAttempts w < maxReconnectAttempts
               then reconnectAttempts w' = reconnectAttempts w + 1
                  \<and> trace w' = trace w @ told @
                      consumer_calls (consumer_throws w) ''reconnecting''
                        (reconnecting_payload w) (handlers_of w ''reconnecting'')
                  \<and> reconnectTimeout w' = Some (next_timer w)
                  \<and> filter (\<lambda>t. kind t = ReconnectTimer) (timers w')
                      = [\<lparr>tid = next_timer w, kind = ReconnectTimer, delay = reconnectInterval w\<rparr>]
               else reconnectAttempts w' = reconnectAttempts w
                  \<and> trace w' = trace w @ told @
                      consumer_calls (consumer_throws w) ''max_reconnect_attempts_reached''
                        (JObj [(''attempts'', JNum (int (reconnectAttempts w)))])
                        (handlers_of w ''max_reconnect_attempts_reached'')
                  \<and> reconnect_delays w' = reconnect_delays w))"
proof -
  let ?told = "consumer_calls (consumer_throws w) ''disconnected''
                 (close_payload code reason) (handlers_of w ''disconnected'')"
  let ?w1 = "stopHeartbeat ((set_ready i CLOSED w)
               \<lparr>authenticated := False, connectionState := Disconnected, ws := None\<rparr>)"
  let ?w2 = "logs ?told ?w1"
  have st: "step (SocketClose i code reason) w = world_of (attemptReconnect ?w2)"
    using step_close[OF assms(1,2,3,6,7,8), of code reason] assms(4,5) by (simp add: Let_def)
  have q2: "quiet ?w2 ''reconnecting''" "quiet ?w2 ''max_reconnect_attempts_reached''"
    using assms(7,8) by (simp_all add: quiet_def handlers_of_def)
  have h2: "handlers_of ?w2 t = handlers_of w t" for t by (simp add: handlers_of_def)
  have t1: "timers ?w1 = (case heartbeatInterval w of None \<Rightarrow> timers w
            | Some h \<Rightarrow> filter (\<lambda>t. tid t \<noteq> h) (timers w))"
    by (simp add: timers_stopHeartbeat split: option.splits)
  have hb: "filter (\<lambda>t. kind t = HeartbeatTimer) (timers ?w1) = []"
    unfolding t1 using assms(9) by (rule no_heartbeat_after_stop)
  have sub: "set (timers ?w1) \<subseteq> set (timers w)"
    unfolding t1 by (cases "heartbeatInterval w") auto
  have rc: "filter (\<lambda>t. kind t = ReconnectTimer)
           (case reconnectTimeout w of None \<Rightarrow> timers ?w1
            | Some h \<Rightarrow> filter (\<lambda>t. tid t \<noteq> h) (timers ?w1)) = []"
    using sub assms(9) by (rule no_reconnect_after_clear)
  have hb2: "filter (\<lambda>t. kind t = HeartbeatTimer)
           (case reconnectTimeout w of None \<Rightarrow> timers ?w1
            | Some h \<Rightarrow> filter (\<lambda>t. tid t \<noteq> h) (timers ?w1)) = []"
    using hb by (cases "reconnectTimeout w") (auto simp: filter_empty_conv)
  have pay: "reconnecting_payload ?w2 = reconnecting_payload w"
    by (simp add: reconnecting_payload_def)
  show ?thesis
  proof (cases "reconnectAttempts w < maxReconnectAttempts")
    case True
    then show ?thesis
      unfolding Let_def st attemptReconnect_quiet[OF q2] h2 pay
      using hb2 rc
      by (simp add: getConnectionState_def timers_clearReconnectTimeout cong: option.case_cong)
  next
    case False
    then show ?thesis
      unfolding Let_def st attemptReconnect_quiet[OF q2] h2 pay
      using hb reconnect_kept_after_stop[OF assms(9)]
      by (simp add: getConnectionState_def reconnect_delays_def t1 cong: option.case_cong)
  qed
qed

definition auth_success_frame :: jsval where
  "auth_success_frame = JObj [(''type'', JStr ''auth_success'')]"

text \<open>A session that has authenticated, with one consumer listening for \<open>disconnected\<close>.\<close>

definition w5 :: client where
  "w5 = run [CallOn ''disconnected'' 1, CallConnect ''tok'' None, SocketOpen 0,
             TimerFires 0 None, SocketMessage 0 (Some auth_success_frame)]
          (new_client (\<lambda>c d. False))"

text \<open>
  Claim C5 as stated fails: after an authenticated session is closed with code 1006 the
  state reported is \<open>disconnected\<close>, not \<open>reconnecting\<close>.
\<close>

theorem close_does_not_enter_reconnecting:
  "authenticated w5 \<and> connectionState w5 = Authenticated
   \<and> getConnectionState (step (SocketClose 0 1006 ''gone'') w5) = ''disconnected''
   \<and> getConnectionState (step (SocketClose 0 1006 ''gone'') w5) \<noteq> ''reconnecting''"
  by (simp add: w5_def auth_success_frame_def getConnectionState_def model_defs)

lemma w5_facts:
  "microtasks w5 = []" "0 < length (sockets w5)" "ready_of w5 0 \<noteq> CLOSED"
  "authenticated w5" "quiet w5 ''disconnected''" "quiet w5 ''reconnecting''"
  "quiet w5 ''max_reconnect_attempts_reached''" "timers_wf w5"
  by (simp_all add: w5_def auth_success_frame_def quiet_def timers_wf_def model_defs)

theorem unexpected_close_of_authenticated_session_witness:
  "microtasks w5 = [] \<and> 0 < length (sockets w5) \<and> ready_of w5 0 \<noteq> CLOSED
   \<and> authenticated w5 \<and> (1006::nat) \<noteq> 1000
   \<and> quiet w5 ''disconnected'' \<and> quiet w5 ''reconnecting''
   \<and> quiet w5 ''max_reconnect_attempts_reached'' \<and> timers_wf w5
   \<and> reconnectAttempts w5 < maxReconnectAttempts
   \<and> getConnectionState (step (SocketClose 0 1006 ''gone'') w5) = ''disconnected''
   \<and> heartbeatInterval (step (SocketClose 0 1006 ''gone'') w5) = None
   \<and> reconnectAttempts (step (SocketClose 0 1006 ''gone'') w5) = 1
   \<and> trace (step (SocketClose 0 1006 ''gone'') w5)
       = trace w5 @ [Invoked ''disconnected'' (Consumer 1) (close_payload 1006 ''gone'')]
   \<and> reconnect_delays (step (SocketClose 0 1006 ''gone'') w5) = [1000]"
proof -
  have n: "reconnectAttempts w5 < maxReconnectAttempts" "reconnectAttempts w5 = 0"
    "reconnectInterval w5 = 1000" "handlers_of w5 ''disconnected'' = [Consumer 1]"
    "handlers_of w5 ''reconnecting'' = []" "consumer_throws w5 = (\<lambda>c d. False)"
    by (simp_all add: w5_def auth_success_frame_def model_defs)
  have "(1006::nat) \<noteq> 1000" by simp
  from unexpected_close_of_authenticated_session[OF w5_facts(1,2,3,4) this w5_facts(5,6,7,8),
      of "''gone''"]
  show ?thesis using w5_facts n by (simp add: Let_def reconnect_delays_def)
qed


lemma socket_close_frame [simp]:
  "ws (socket_close i w) = ws w" "token (socket_close i w) = token w"
  "authenticated (socket_close i w) = authenticated w"
  "reconnectAttempts (socket_close i w) = reconnectAttempts w"
  "reconnectInterval (socket_close i w) = reconnectInterval w"
  "heartbeatInterval (socket_close i w) = heartbeatInterval w"
  "reconnectTimeout (socket_close i w) = reconnectTimeout w"
  "eventHandlers (socket_close i w) = eventHandlers w"
  "connectionState (socket_close i w) = connectionState w"
  "promises (socket_close i w) = promises w" "timers (socket_close i w) = timers w"
  "microtasks (socket_close i w) = microtasks w" "trace (socket_close i w) = trace w"
  "consumer_throws (socket_close i w) = consumer_throws w"
  "next_timer (socket_close i w) = next_timer w"
  "length (sockets (socket_close i w)) = length (sockets w)"
  by (simp_all add: socket_close_def)

lemma emits_frame [simp]:
  "ws (emits e w) = ws w" "token (emits e w) = token w"
  "authenticated (emits e w) = authenticated w"
  "reconnectAttempts (emits e w) = reconnectAttempts w"
  "reconnectInterval (emits e w) = reconnectInterval w"
  "heartbeatInterval (emits e w) = heartbeatInterval w"
  "reconnectTimeout (emits e w) = reconnectTimeout w"
  "eventHandlers (emits e w) = eventHandlers w"
  "connectionState (emits e w) = connectionState w"
  "sockets (emits e w) = sockets w" "promises (emits e w) = promises w"
  "timers (emits e w) = timers w" "next_timer (emits e w) = next_timer w"
  "microtasks (emits e w) = microtasks w"
  by (simp_all add: emits_def)

text \<open>The event type a trace entry is about, if it is about a handler.\<close>

fun about :: "string \<Rightarrow> obs \<Rightarrow> bool" where
  "about t (Invoked t' h d) = (t' = t)"
| "about t (HandlerError t' h) = (t' = t)"
| "about t e = False"

lemma about_consumer_calls: "list_all (about t) (consumer_calls thr t d hs)"
  by (induction thr t d hs rule: consumer_calls.induct) simp_all



lemma disconnect_effect:
  assumes "timers_wf w"
  shows "heartbeatInterval (disconnect w) = None" "reconnectTimeout (disconnect w) = None"
    "\<not> authenticated (disconnect w)" "connectionState (disconnect w) = Disconnected"
    "ws (disconnect w) = None"
    "filter (\<lambda>t. kind t = HeartbeatTimer) (timers (disconnect w)) = []"
    "filter (\<lambda>t. kind t = ReconnectTimer) (timers (disconnect w)) = []"
    "trace (disconnect w) = trace w @ (case ws w of None \<Rightarrow> [] | Some i \<Rightarrow> [WireClose i 1000])"
    "microtasks (disconnect w) = microtasks w" "eventHandlers (disconnect w) = eventHandlers w"
    "reconnectAttempts (disconnect w) = reconnectAttempts w"
    "reconnectInterval (disconnect w) = reconnectInterval w"
proof -
  let ?w1 = "w\<lparr>authenticated := False, connectionState := Disconnected\<rparr>"
  let ?w3 = "clearReconnectTimeout (stopHeartbeat ?w1)"
  have d: "disconnect w = (case ws w of None \<Rightarrow> ?w3
             | Some i \<Rightarrow> (socket_close i (emits (WireClose i 1000) ?w3))\<lparr>ws := None\<rparr>)"
    by (simp add: disconnect_def Let_def)
  have t1: "timers (stopHeartbeat ?w1) = (case heartbeatInterval w of None \<Rightarrow> timers w
            | Some h \<Rightarrow> filter (\<lambda>t. tid t \<noteq> h) (timers w))"
    by (simp add: timers_stopHeartbeat split: option.splits)
  have t3: "timers ?w3 = (case reconnectTimeout w of None \<Rightarrow> timers (stopHeartbeat ?w1)
            | Some h \<Rightarrow> filter (\<lambda>t. tid t \<noteq> h) (timers (stopHeartbeat ?w1)))"
    by (simp add: timers_clearReconnectTimeout split: option.splits)
  have hb: "filter (\<lambda>t. kind t = HeartbeatTimer) (timers (stopHeartbeat ?w1)) = []"
    unfolding t1 using assms by (rule no_heartbeat_after_stop)
  have sub: "set (timers (stopHeartbeat ?w1)) \<subseteq> set (timers w)"
    unfolding t1 by (cases "heartbeatInterval w") auto
  have rc: "filter (\<lambda>t. kind t = ReconnectTimer) (timers ?w3) = []"
    unfolding t3 using sub assms by (rule no_reconnect_after_clear)
  have hb3: "filter (\<lambda>t. kind t = HeartbeatTimer) (timers ?w3) = []"
    unfolding t3 using hb by (cases "reconnectTimeout w") (auto simp: filter_empty_conv)
  have tm: "timers (disconnect w) = timers ?w3"
    unfolding d by (cases "ws w") simp_all
  show "filter (\<lambda>t. kind t = HeartbeatTimer) (timers (disconnect w)) = []"
    unfolding tm by (rule hb3)
  show "filter (\<lambda>t. kind t = ReconnectTimer) (timers (disconnect w)) = []"
    unfolding tm by (rule rc)
  show "heartbeatInterval (disconnect w) = None" "reconnectTimeout (disconnect w) = None"
    "\<not> authenticated (disconnect w)" "connectionState (disconnect w) = Disconnected"
    "ws (disconnect w) = None"
    "trace (disconnect w) = trace w @ (case ws w of None \<Rightarrow> [] | Some i \<Rightarrow> [WireClose i 1000])"
    "microtasks (disconnect w) = microtasks w" "eventHandlers (disconnect w) = eventHandlers w"
    "reconnectAttempts (disconnect w) = reconnectAttempts w"
    "reconnectInterval (disconnect w) = reconnectInterval w"
    unfolding d by (cases "ws w"; simp)+
qed





text \<open>The authenticated session of \<open>w5\<close> after its socket was lost: a reconnect is pending.\<close>

definition w5_lost :: client where
  "w5_lost = step (SocketClose 0 1006 ''gone'') w5"




subsection \<open>An invariant of every run\<close>

definition sane :: "client \<Rightarrow> bool" where
  "sane w \<longleftrightarrow> registry_wf w \<and> timers_wf w"

lemma registry_wf_cong:
  "eventHandlers w' = eventHandlers w \<Longrightarrow> registry_wf w' = registry_wf w"
  by (simp add: registry_wf_def handlers_of_def)

lemma timers_wf_cong:
  "timers w' = timers w \<Longrightarrow> next_timer w' = next_timer w \<Longrightarrow>
   heartbeatInterval w' = heartbeatInterval w \<Longrightarrow> reconnectTimeout w' = reconnectTimeout w \<Longrightarrow>
   timers_wf w' = timers_wf w"
  by (simp add: timers_wf_def)

lemma sane_cong:
  "eventHandlers w' = eventHandlers w \<Longrightarrow>
   timers w' = timers w \<Longrightarrow> next_timer w' = next_timer w \<Longrightarrow>
   heartbeatInterval w' = heartbeatInterval w \<Longrightarrow> reconnectTimeout w' = reconnectTimeout w \<Longrightarrow>
   sane w' = sane w"
  using registry_wf_cong[of w' w] timers_wf_cong[of w' w] by (simp add: sane_def)

text \<open>Removing pending timers keeps the timers well formed.\<close>

lemma timers_wf_remove:
  assumes "timers_wf w" "timers w' = filter P (timers w)" "next_timer w' = next_timer w"
    "heartbeatInterval w' = heartbeatInterval w" "reconnectTimeout w' = reconnectTimeout w"
  shows "timers_wf w'"
  using assms by (auto simp: timers_wf_def distinct_map_filter)

lemma timers_wf_add:
  assumes "timers_wf w" "k \<noteq> HeartbeatTimer" "k \<noteq> ReconnectTimer"
  shows "timers_wf (set_timer k ms w)"
  using assms by (auto simp: timers_wf_def less_Suc_eq)

lemma timers_wf_stopHeartbeat:
  assumes "timers_wf w"
  shows "timers_wf (stopHeartbeat w)"
proof (cases "heartbeatInterval w")
  case None
  then show ?thesis using assms by (simp add: stopHeartbeat_def)
next
  case (Some h)
  then show ?thesis using assms
    by (auto simp: stopHeartbeat_def timers_wf_def distinct_map_filter)
qed

lemma timers_wf_startHeartbeat:
  assumes "timers_wf w"
  shows "timers_wf (startHeartbeat w)"
proof -
  have s: "timers_wf (stopHeartbeat w)" using assms by (rule timers_wf_stopHeartbeat)
  have "heartbeatInterval (stopHeartbeat w) = None" by simp
  then show ?thesis using s
    by (auto simp: startHeartbeat_def Let_def timers_wf_def less_Suc_eq)
qed

lemma timers_wf_clearReconnectTimeout:
  assumes "timers_wf w"
  shows "timers_wf (clearReconnectTimeout w)"
proof (cases "reconnectTimeout w")
  case None
  then show ?thesis using assms by (simp add: clearReconnectTimeout_def)
next
  case (Some h)
  then show ?thesis using assms
    by (auto simp: clearReconnectTimeout_def timers_wf_def distinct_map_filter)
qed

lemma timers_wf_schedule_reconnect:
  assumes "timers_wf w"
  shows "timers_wf ((set_timer ReconnectTimer ms (clearReconnectTimeout w))
                      \<lparr>reconnectTimeout := Some (next_timer (clearReconnectTimeout w))\<rparr>)"
proof -
  have c: "timers_wf (clearReconnectTimeout w)" using assms by (rule timers_wf_clearReconnectTimeout)
  have n: "reconnectTimeout (clearReconnectTimeout w) = None" by simp
  have "\<forall>t \<in> set (timers (clearReconnectTimeout w)). kind t \<noteq> ReconnectTimer"
    using c n by (auto simp: timers_wf_def)
  then show ?thesis using c
    by (auto simp: timers_wf_def less_Suc_eq)
qed


lemma off_frame [simp]:
  "ws (off t h w) = ws w" "token (off t h w) = token w"
  "authenticated (off t h w) = authenticated w"
  "reconnectAttempts (off t h w) = reconnectAttempts w"
  "reconnectInterval (off t h w) = reconnectInterval w"
  "heartbeatInterval (off t h w) = heartbeatInterval w"
  "reconnectTimeout (off t h w) = reconnectTimeout w"
  "connectionState (off t h w) = connectionState w"
  "sockets (off t h w) = sockets w" "promises (off t h w) = promises w"
  "timers (off t h w) = timers w" "next_timer (off t h w) = next_timer w"
  "microtasks (off t h w) = microtasks w"
  "consumer_throws (off t h w) = consumer_throws w"
  by (cases "eventHandlers w t"; simp add: off_def)+

lemma on_frame [simp]:
  "ws (on t h w) = ws w" "token (on t h w) = token w"
  "authenticated (on t h w) = authenticated w"
  "reconnectAttempts (on t h w) = reconnectAttempts w"
  "reconnectInterval (on t h w) = reconnectInterval w"
  "heartbeatInterval (on t h w) = heartbeatInterval w"
  "reconnectTimeout (on t h w) = reconnectTimeout w"
  "connectionState (on t h w) = connectionState w"
  "sockets (on t h w) = sockets w" "promises (on t h w) = promises w"
  "timers (on t h w) = timers w" "next_timer (on t h w) = next_timer w"
  "microtasks (on t h w) = microtasks w" "trace (on t h w) = trace w @ [Registered t h]"
  "consumer_throws (on t h w) = consumer_throws w"
  by (simp_all add: on_def emits_def)

lemma new_promise_frame [simp]:
  "ws (new_promise r w) = ws w" "token (new_promise r w) = token w"
  "authenticated (new_promise r w) = authenticated w"
  "reconnectAttempts (new_promise r w) = reconnectAttempts w"
  "reconnectInterval (new_promise r w) = reconnectInterval w"
  "heartbeatInterval (new_promise r w) = heartbeatInterval w"
  "reconnectTimeout (new_promise r w) = reconnectTimeout w"
  "eventHandlers (new_promise r w) = eventHandlers w"
  "connectionState (new_promise r w) = connectionState w"
  "sockets (new_promise r w) = sockets w"
  "timers (new_promise r w) = timers w" "next_timer (new_promise r w) = next_timer w"
  "microtasks (new_promise r w) = microtasks w" "trace (new_promise r w) = trace w"
  "consumer_throws (new_promise r w) = consumer_throws w"
  "promises (new_promise r w) = promises w @ [\<lparr>status = Pending, reaction = r\<rparr>]"
  by (simp_all add: new_promise_def)

lemma registry_wf_off: "registry_wf w \<Longrightarrow> registry_wf (off t h w)"
  by (auto simp: registry_wf_def handlers_of_off distinct_removeAll list_all_iff)

lemma registry_wf_on:
  "registry_wf w \<Longrightarrow> proper_place t h \<Longrightarrow> registry_wf (on t h w)"
  by (auto simp: registry_wf_def handlers_of_on set_add_def list_all_iff)

lemma after_call_timers:
  "timers (after_call t d h w) =
     (case h of Consumer c \<Rightarrow> timers w
      | HandleAuthResponse a tm \<Rightarrow> filter (\<lambda>x. tid x \<noteq> tm) (timers w)
      | HandleAuthError a tm \<Rightarrow> filter (\<lambda>x. tid x \<noteq> tm) (timers w))"
  "next_timer (after_call t d h w) = next_timer w"
  "heartbeatInterval (after_call t d h w) = heartbeatInterval w"
  "reconnectTimeout (after_call t d h w) = reconnectTimeout w"
  by (cases h; cases "d = JNull";
      simp add: after_call_def guarded_call_def handleAuthResponse_def handleAuthError_def Let_def)+

lemma timers_wf_after_call:
  assumes "timers_wf w"
  shows "timers_wf (after_call t d h w)"
proof (cases h)
  case (Consumer c)
  then have "timers_wf (after_call t d h w) = timers_wf w"
    by (intro timers_wf_cong) (simp_all add: after_call_timers)
  then show ?thesis using assms by simp
next
  case (HandleAuthResponse a tm)
  then show ?thesis
    by (intro timers_wf_remove[OF assms, of _ "\<lambda>x. tid x \<noteq> tm"]) (simp_all add: after_call_timers)
next
  case (HandleAuthError a tm)
  then show ?thesis
    by (intro timers_wf_remove[OF assms, of _ "\<lambda>x. tid x \<noteq> tm"]) (simp_all add: after_call_timers)
qed

lemma sane_after_call: "sane w \<Longrightarrow> sane (after_call t d h w)"
  by (simp add: sane_def registry_wf_after_call timers_wf_after_call)

lemma forEach_preserves:
  assumes "\<And>h w. P w \<Longrightarrow> P (after_call t d h w)" "P w"
  shows "P (world_of (forEach (guarded_call t d) t hs w))"
  using assms(2)
proof (induction hs arbitrary: w)
  case Nil
  then show ?case by simp
next
  case (Cons h hs)
  show ?case
  proof (cases "h \<in> set (handlers_of w t)")
    case True
    have "P (after_call t d h w)" using Cons.prems by (rule assms(1))
    then have "P (world_of (forEach (guarded_call t d) t hs (after_call t d h w)))"
      by (rule Cons.IH)
    then show ?thesis by (simp only: forEach_live[OF True])
  next
    case False
    then show ?thesis using Cons.IH[OF Cons.prems] by simp
  qed
qed

lemma emit_preserves:
  assumes "\<And>h w. P w \<Longrightarrow> P (after_call t d h w)" "P w"
  shows "P (world_of (emit t d w))"
  using assms forEach_preserves[of P t d w]
  by (cases "eventHandlers w t") (simp_all add: emit_def)

lemma sane_emit: "sane w \<Longrightarrow> sane (world_of (emit t d w))"
  by (rule emit_preserves[of sane]) (simp_all add: sane_after_call)


lemma sane_frames [simp]:
  "sane (emits e w) = sane w" "sane (settle p r w) = sane w"
  "sane (new_promise rn w) = sane w" "sane (set_ready i rs w) = sane w"
  "sane (socket_close i w) = sane w"
  by (rule sane_cong; simp)+

lemma sane_updates [simp]:
  "sane (w\<lparr>authenticated := a\<rparr>) = sane w" "sane (w\<lparr>connectionState := c\<rparr>) = sane w"
  "sane (w\<lparr>ws := s\<rparr>) = sane w" "sane (w\<lparr>token := k\<rparr>) = sane w"
  "sane (w\<lparr>reconnectAttempts := n\<rparr>) = sane w" "sane (w\<lparr>reconnectInterval := n\<rparr>) = sane w"
  "sane (w\<lparr>sockets := ss\<rparr>) = sane w" "sane (w\<lparr>microtasks := ms\<rparr>) = sane w"
  "sane (w\<lparr>trace := tr\<rparr>) = sane w" "sane (w\<lparr>promises := ps\<rparr>) = sane w"
  by (rule sane_cong; simp)+

lemma sane_clear_timer: "sane w \<Longrightarrow> sane (clear_timer h w)"
  unfolding sane_def
  by (auto intro: timers_wf_remove[of w _ "\<lambda>t. tid t \<noteq> h"] simp: registry_wf_cong[of "clear_timer h w" w])

lemma sane_stopHeartbeat: "sane w \<Longrightarrow> sane (stopHeartbeat w)"
  unfolding sane_def
  by (simp add: timers_wf_stopHeartbeat registry_wf_cong[of "stopHeartbeat w" w])

lemma sane_startHeartbeat:
  assumes "sane w"
  shows "sane (startHeartbeat w)"
proof -
  have "registry_wf (startHeartbeat w) = registry_wf w"
    by (rule registry_wf_cong) (simp add: startHeartbeat_def Let_def)
  then show ?thesis using assms timers_wf_startHeartbeat[of w] by (simp add: sane_def)
qed

lemma sane_schedule_reconnect:
  assumes "sane w"
  shows "sane ((set_timer ReconnectTimer ms (clearReconnectTimeout w))
           \<lparr>reconnectTimeout := Some (next_timer (clearReconnectTimeout w))\<rparr>)"
proof -
  have "registry_wf ((set_timer ReconnectTimer ms (clearReconnectTimeout w))
           \<lparr>reconnectTimeout := Some (next_timer (clearReconnectTimeout w))\<rparr>) = registry_wf w"
    by (rule registry_wf_cong) simp
  then show ?thesis using assms timers_wf_schedule_reconnect[of w ms] by (simp only: sane_def)
qed

lemma sane_clearReconnectTimeout: "sane w \<Longrightarrow> sane (clearReconnectTimeout w)"
  unfolding sane_def
  by (simp add: timers_wf_clearReconnectTimeout registry_wf_cong[of "clearReconnectTimeout w" w])

lemma sane_set_timer:
  "sane w \<Longrightarrow> k \<noteq> HeartbeatTimer \<Longrightarrow> k \<noteq> ReconnectTimer \<Longrightarrow> sane (set_timer k ms w)"
  unfolding sane_def
  by (simp add: timers_wf_add registry_wf_cong[of "set_timer k ms w" w])

lemma sane_on: "sane w \<Longrightarrow> proper_place t h \<Longrightarrow> sane (on t h w)"
  unfolding sane_def
  by (simp add: registry_wf_on timers_wf_cong[of "on t h w" w])

lemma sane_off: "sane w \<Longrightarrow> sane (off t h w)"
  unfolding sane_def
  by (simp add: registry_wf_off timers_wf_cong[of "off t h w" w])

lemma sane_attemptReconnect: "sane w \<Longrightarrow> sane (world_of (attemptReconnect w))"
proof (cases "maxReconnectAttempts \<le> reconnectAttempts w")
  case True
  assume "sane w"
  then show ?thesis using True by (simp add: attemptReconnect_def sane_emit)
next
  case False
  assume s: "sane w"
  let ?w1 = "w\<lparr>reconnectAttempts := reconnectAttempts w + 1\<rparr>"
  let ?d = "JObj [(''attempt'', JNum (int (reconnectAttempts ?w1))),
                  (''maxAttempts'', JNum (int maxReconnectAttempts)),
                  (''delay'', JNum (int (reconnectInterval ?w1)))]"
  have e: "emit ''reconnecting'' ?d ?w1 = Returned (world_of (emit ''reconnecting'' ?d ?w1))"
    by (rule emit_world)
  have "sane (world_of (emit ''reconnecting'' ?d ?w1))"
    using s by (intro sane_emit) simp
  then have "sane ((set_timer ReconnectTimer
                      (reconnectInterval (clearReconnectTimeout (world_of (emit ''reconnecting'' ?d ?w1))))
                      (clearReconnectTimeout (world_of (emit ''reconnecting'' ?d ?w1))))
           \<lparr>reconnectTimeout := Some (next_timer (clearReconnectTimeout
                 (world_of (emit ''reconnecting'' ?d ?w1))))\<rparr>)"
    by (rule sane_schedule_reconnect)
  moreover have "attemptReconnect w = Returned ((set_timer ReconnectTimer
                      (reconnectInterval (clearReconnectTimeout (world_of (emit ''reconnecting'' ?d ?w1))))
                      (clearReconnectTimeout (world_of (emit ''reconnecting'' ?d ?w1))))
           \<lparr>reconnectTimeout := Some (next_timer (clearReconnectTimeout
                 (world_of (emit ''reconnecting'' ?d ?w1))))\<rparr>)"
    using False
    by (subst attemptReconnect_def) (simp only: Let_def if_False and_then_def, subst e, simp)
  ultimately show ?thesis by simp
qed

lemma sane_reconnect_failed: "sane w \<Longrightarrow> sane (world_of (reconnect_failed w))"
  by (simp add: reconnect_failed_def sane_attemptReconnect)

lemma sane_connect: "sane (connect tok ctor r w) = sane w"
  by (cases ctor) (simp_all add: connect_def Let_def)

lemma sane_disconnect: "sane w \<Longrightarrow> sane (disconnect w)"
  by (cases "ws w") (simp_all add: disconnect_def Let_def sane_stopHeartbeat sane_clearReconnectTimeout)

lemma sane_send [simp]: "sane (send m w) = sane w"
  by (cases "ws w") (simp_all add: send_def)

lemma sane_authenticate: "sane w \<Longrightarrow> sane (authenticate r w)"
  by (cases "token w") (simp_all add: authenticate_def Let_def sane_on sane_set_timer)

lemma sane_onopen: "sane w \<Longrightarrow> sane (onopen p w)"
  by (simp add: onopen_def sane_set_timer)

lemma sane_settle_timeout: "sane w \<Longrightarrow> sane (settle_timeout p w)"
  by (simp add: settle_timeout_def sane_authenticate)

lemma sane_handleMessage: "sane w \<Longrightarrow> sane (world_of (handleMessage m w))"
  by (auto simp: handleMessage_def sane_emit split: option.splits jsval.splits)

lemma sane_onmessage: "sane w \<Longrightarrow> sane (onmessage parsed w)"
proof (cases parsed)
  case None
  assume "sane w"
  then show ?thesis using None by (simp add: onmessage_def)
next
  case (Some m)
  assume "sane w"
  then have "sane (world_of (handleMessage m w))" by (rule sane_handleMessage)
  then show ?thesis using Some by (cases "handleMessage m w") (simp_all add: onmessage_def)
qed

lemma sane_onerror: "sane w \<Longrightarrow> sane (world_of (onerror p w))"
proof -
  assume s: "sane w"
  let ?d = "JObj [(''error'', JStr ''Connection error'')]"
  have e: "emit ''error'' ?d w = Returned (world_of (emit ''error'' ?d w))" by (rule emit_world)
  have "sane (world_of (emit ''error'' ?d w))" using s by (rule sane_emit)
  then show ?thesis
    by (subst onerror_def) (simp only: and_then_def, subst e, simp)
qed

lemma sane_onclose: "sane w \<Longrightarrow> sane (world_of (onclose code reason w))"
proof -
  assume s: "sane w"
  let ?w1 = "stopHeartbeat (w\<lparr>authenticated := False, connectionState := Disconnected, ws := None\<rparr>)"
  let ?d = "JObj [(''code'', JNum (int code)), (''reason'', JStr reason)]"
  have e: "emit ''disconnected'' ?d ?w1 = Returned (world_of (emit ''disconnected'' ?d ?w1))"
    by (rule emit_world)
  have "sane ?w1" using s by (intro sane_stopHeartbeat) simp
  then have s2: "sane (world_of (emit ''disconnected'' ?d ?w1))" by (rule sane_emit)
  show ?thesis
    by (subst onclose_def) (simp only: Let_def and_then_def, subst e, simp add: s2 sane_attemptReconnect)
qed

lemma sane_reconnect_timeout: "sane w \<Longrightarrow> sane (reconnect_timeout ctor w)"
  by (cases "token w") (simp_all add: reconnect_timeout_def sane_connect)

lemma sane_run_reaction: "sane w \<Longrightarrow> sane (world_of (run_reaction p w))"
proof -
  assume s: "sane w"
  let ?d = "JObj [(''attempts'', JNum (int (reconnectAttempts w)))]"
  have e: "emit ''reconnected'' ?d w = Returned (world_of (emit ''reconnected'' ?d w))"
    by (rule emit_world)
  have "sane (world_of (emit ''reconnected'' ?d w))" using s by (rule sane_emit)
  then show ?thesis using s
    by (subst run_reaction_def, subst e)
       (simp add: sane_startHeartbeat sane_reconnect_failed split: pstate.splits reaction.splits)
qed

lemma sane_drain: "sane w \<Longrightarrow> sane (drain w)"
proof (induction w rule: drain.induct)
  case (1 w)
  show ?case
  proof (cases "microtasks w")
    case Nil
    then show ?thesis using "1.prems" by (simp add: drain_Nil)
  next
    case (Cons p ps)
    have "sane (world_of (run_reaction p (w\<lparr>microtasks := ps\<rparr>)))"
      using "1.prems" by (intro sane_run_reaction) simp
    then show ?thesis using "1.IH"[OF Cons] by (simp add: drain_Cons[OF Cons])
  qed
qed

lemma sane_fire: "sane w \<Longrightarrow> sane (fire t ctor w)"
  by (cases "kind t")
     (simp_all add: fire_def heartbeat_tick_def auth_timeout_def sane_settle_timeout
        sane_reconnect_timeout sane_clear_timer)

lemma sane_callback: "sane w \<Longrightarrow> sane (callback e w)"
  by (cases e)
     (simp_all add: callback_def sane_connect sane_disconnect sane_on sane_off sane_onopen
        sane_onmessage sane_onerror sane_onclose sane_fire split: option.splits)

lemma sane_step: "sane w \<Longrightarrow> sane (step e w)"
  by (simp add: step_def sane_drain sane_callback)

lemma sane_new: "sane (new_client thr)"
  by (simp add: sane_def registry_wf_def timers_wf_def new_client_def handlers_of_def)

lemma sane_run: "sane w \<Longrightarrow> sane (run es w)"
  by (induction es arbitrary: w) (simp_all add: sane_step)

lemma microtasks_run: "microtasks w = [] \<Longrightarrow> microtasks (run es w) = []"
  by (induction es arbitrary: w) (simp_all add: step_def microtasks_drain)

text \<open>
  Every state a new client reaches has an empty reaction queue, a well-formed registry
  and well-formed timers; so only consumers listen for a type other than \<open>auth_success\<close>
  and \<open>auth_error\<close>.
\<close>

lemma reachable_sane:
  "microtasks (run es (new_client thr)) = [] \<and> registry_wf (run es (new_client thr))
   \<and> timers_wf (run es (new_client thr))"
  using sane_run[OF sane_new, of es thr] microtasks_run[of "new_client thr" es]
  by (simp add: sane_def new_client_def)

lemma registry_wf_quiet:
  assumes "registry_wf w" "t \<noteq> ''auth_success''" "t \<noteq> ''auth_error''"
  shows "quiet w t"
proof -
  have "list_all (proper_place t) (handlers_of w t)" using assms(1) by (simp add: registry_wf_def)
  moreover have "proper_place t h \<Longrightarrow> is_consumer h" for h using assms(2,3) by (cases h) simp_all
  ultimately show ?thesis by (auto simp: quiet_def list_all_iff)
qed


subsection \<open>A manual \<open>connect\<close> and the reconnect timer\<close>

lemma step_connect_timers:
  assumes "microtasks w = []"
  shows "timers (step (CallConnect tok ctor) w) = timers w
       \<and> reconnectTimeout (step (CallConnect tok ctor) w) = reconnectTimeout w
       \<and> next_timer (step (CallConnect tok ctor) w) = next_timer w"
proof (cases "connectionState w = Connected \<or> connectionState w = Authenticated")
  case True
  then show ?thesis using assms
    by (simp add: step_def callback_def connect_def settle_def new_promise_def Let_def
        drain_Cons drain_Nil run_reaction_def emits_def nth_append)
next
  case False
  then show ?thesis using assms
    by (cases ctor)
       (simp_all add: step_def callback_def connect_def settle_def new_promise_def Let_def
        drain_Cons drain_Nil run_reaction_def emits_def nth_append)
qed

lemma all_same_distinct: "distinct xs \<Longrightarrow> \<forall>x \<in> set xs. x = a \<Longrightarrow> length xs \<le> Suc 0"
  by (cases xs; cases "tl xs") auto

lemma one_reconnect_timer:
  assumes "timers_wf w"
  shows "length (reconnect_delays w) \<le> 1"
proof (cases "reconnectTimeout w")
  case None
  then have "filter (\<lambda>t. kind t = ReconnectTimer) (timers w) = []"
    using assms by (auto simp: timers_wf_def filter_empty_conv)
  then show ?thesis by (simp add: reconnect_delays_def)
next
  case (Some h)
  let ?rs = "filter (\<lambda>t. kind t = ReconnectTimer) (timers w)"
  have "distinct (map tid ?rs)" using assms by (simp add: timers_wf_def distinct_map_filter)
  moreover have "\<forall>x \<in> set (map tid ?rs). x = h" using assms Some by (auto simp: timers_wf_def)
  ultimately have "length (map tid ?rs) \<le> Suc 0" by (rule all_same_distinct)
  then show ?thesis by (simp add: reconnect_delays_def)
qed

text \<open>
  Claim C4, as the code has it. In every state a new client reaches, a manual
  \<open>connect\<close> leaves the pending timers and the handle \<open>reconnectTimeout\<close> exactly as they
  were: it cancels nothing. At most one reconnect timer is ever pending (since
  \<open>attemptReconnect\<close> clears the handle's timer before it sets the next), and it is
  \<open>disconnect\<close> that clears it.
\<close>

theorem connect_leaves_reconnect_timer:
  "(let w = run es (new_client thr);
        w' = step (CallConnect tok ctor) w
    in timers w' = timers w
     \<and> reconnectTimeout w' = reconnectTimeout w
     \<and> reconnect_delays w' = reconnect_delays w
     \<and> length (reconnect_delays w) \<le> 1
     \<and> reconnect_delays (step CallDisconnect w) = [])"
proof -
  let ?w = "run es (new_client thr)"
  have r: "microtasks ?w = []" "timers_wf ?w" using reachable_sane[of es thr] by simp_all
  note c = step_connect_timers[OF r(1), of tok ctor]
  have d: "step CallDisconnect ?w = disconnect ?w"
    using r(1) disconnect_effect(9)[OF r(2)] by (simp add: step_def callback_def drain_Nil)
  show ?thesis
    unfolding Let_def d
    using c one_reconnect_timer[OF r(2)] disconnect_effect(7)[OF r(2)]
    by (simp add: reconnect_delays_def)
qed

text \<open>The events that bring a new client to \<open>w5_lost\<close>.\<close>

definition lost_session :: "event list" where
  "lost_session =
     [CallOn ''disconnected'' 1, CallConnect ''tok'' None, SocketOpen 0, TimerFires 0 None,
      SocketMessage 0 (Some auth_success_frame), SocketClose 0 1006 ''gone'']"

lemma w5_lost_run: "w5_lost = run lost_session (new_client (\<lambda>c d. False))"
  by (simp add: w5_lost_def w5_def lost_session_def)

text \<open>
  Claim C4 as stated fails: with a reconnect timer pending, a manual \<open>connect\<close> leaves it
  pending; when it then fires, a second socket is opened beside the first.
\<close>

theorem connect_does_not_cancel_reconnect:
  "reconnect_delays w5_lost = [1000]
   \<and> reconnect_delays (step (CallConnect ''tok'' None) w5_lost) = [1000]
   \<and> map readyState (sockets (run [CallConnect ''tok'' None, TimerFires 3 None] w5_lost))
       = [CLOSED, CONNECTING, CONNECTING]"
  by (simp add: w5_lost_def w5_def auth_success_frame_def model_defs)

theorem connect_leaves_reconnect_timer_witness:
  "reconnect_delays (run lost_session (new_client (\<lambda>c d. False))) = [1000]
   \<and> timers (step (CallConnect ''tok'' None) (run lost_session (new_client (\<lambda>c d. False))))
       = [\<lparr>tid = 3, kind = ReconnectTimer, delay = 1000\<rparr>]
   \<and> reconnectTimeout (step (CallConnect ''tok'' None) (run lost_session (new_client (\<lambda>c d. False))))
       = Some 3
   \<and> reconnect_delays (step CallDisconnect (run lost_session (new_client (\<lambda>c d. False)))) = []"
proof -
  have t: "timers (run lost_session (new_client (\<lambda>c d. False)))
             = [\<lparr>tid = 3, kind = ReconnectTimer, delay = 1000\<rparr>]"
    "reconnectTimeout (run lost_session (new_client (\<lambda>c d. False))) = Some 3"
    by (simp_all add: lost_session_def auth_success_frame_def model_defs)
  show ?thesis
    using connect_leaves_reconnect_timer[of lost_session "\<lambda>c d. False" "''tok''" None] t
    unfolding Let_def by (simp add: reconnect_delays_def)
qed


subsection \<open>The authentication handshake\<close>

definition auth_frame :: "string \<Rightarrow> jsval" where
  "auth_frame tok = JObj [(''type'', JStr ''auth''), (''token'', JStr tok)]"

text \<open>
  The state in which the 100 ms timer \<open>h\<close> set by \<open>onopen\<close> is about to fire: the current
  socket \<open>i\<close> is open, a token is held, and the promise \<open>p\<close> of \<open>connect\<close> is pending.
\<close>

definition handshake_ready :: "client \<Rightarrow> nat \<Rightarrow> nat \<Rightarrow> nat \<Rightarrow> string \<Rightarrow> bool" where
  "handshake_ready w h p i tok \<longleftrightarrow>
     microtasks w = []
   \<and> find_timer h w = Some \<lparr>tid = h, kind = SettleTimer p, delay = 100\<rparr>
   \<and> ws w = Some i \<and> i < length (sockets w) \<and> ready_of w i = OPEN
   \<and> token w = Some tok \<and> tok \<noteq> []
   \<and> p < length (promises w) \<and> status (promises w ! p) = Pending"

text \<open>The state once \<open>authenticate\<close> has run from \<open>w\<close>.\<close>

definition authenticating :: "client \<Rightarrow> nat \<Rightarrow> nat \<Rightarrow> string \<Rightarrow> client" where
  "authenticating w h p tok =
     send (auth_frame tok)
       (on ''auth_error'' (HandleAuthError (length (promises w)) (next_timer w))
          (on ''auth_success'' (HandleAuthResponse (length (promises w)) (next_timer w))
             (set_timer (AuthTimer (length (promises w))) 5000
                (new_promise (AuthChain p) (clear_timer h w)))))"

lemma send_frame [simp]:
  "ws (send m w) = ws w" "token (send m w) = token w"
  "authenticated (send m w) = authenticated w"
  "reconnectAttempts (send m w) = reconnectAttempts w"
  "reconnectInterval (send m w) = reconnectInterval w"
  "heartbeatInterval (send m w) = heartbeatInterval w"
  "reconnectTimeout (send m w) = reconnectTimeout w"
  "eventHandlers (send m w) = eventHandlers w"
  "connectionState (send m w) = connectionState w"
  "sockets (send m w) = sockets w" "promises (send m w) = promises w"
  "timers (send m w) = timers w" "next_timer (send m w) = next_timer w"
  "microtasks (send m w) = microtasks w"
  "consumer_throws (send m w) = consumer_throws w"
  by (cases "ws w"; simp add: send_def)+

lemma ready_of_frames [simp]:
  "ready_of (clear_timer h w) i = ready_of w i" "ready_of (set_timer k ms w) i = ready_of w i"
  "ready_of (new_promise r w) i = ready_of w i" "ready_of (on t hh w) i = ready_of w i"
  "ready_of (off t hh w) i = ready_of w i" "ready_of (send m w) i = ready_of w i"
  "ready_of (settle p st w) i = ready_of w i" "ready_of (emits e w) i = ready_of w i"
  "ready_of (logs es w) i = ready_of w i"
  by (simp_all add: ready_of_def)

lemma step_settle_timer:
  assumes "handshake_ready w h p i tok"
  shows "step (TimerFires h ctor) w = authenticating w h p tok"
proof -
  have a: "microtasks w = []" "find_timer h w = Some \<lparr>tid = h, kind = SettleTimer p, delay = 100\<rparr>"
    "ws w = Some i" "ready_of w i = OPEN" "token w = Some tok" "tok \<noteq> []"
    using assms by (simp_all add: handshake_ready_def)
  have "callback (TimerFires h ctor) w = authenticating w h p tok"
    using a by (simp add: callback_def fire_def settle_timeout_def ws_is_open_def
        authenticate_def Let_def authenticating_def auth_frame_def)
  moreover have "microtasks (authenticating w h p tok) = []"
    using a(1) by (simp add: authenticating_def)
  ultimately show ?thesis by (simp add: step_def drain_Nil)
qed

lemma trace_send:
  "trace (send m w) = trace w @ [if ws_is_open w then WireSend (the (ws w)) m else SendDropped m]"
  by (cases "ws w") (simp_all add: send_def ws_is_open_def)

lemma authenticating_trace:
  assumes "handshake_ready w h p i tok"
  shows "trace (authenticating w h p tok) = trace w @
     [Registered ''auth_success'' (HandleAuthResponse (length (promises w)) (next_timer w)),
      Registered ''auth_error'' (HandleAuthError (length (promises w)) (next_timer w)),
      WireSend i (auth_frame tok)]"
  using assms by (simp add: authenticating_def handshake_ready_def trace_send ws_is_open_def)

lemma authenticating_handlers:
  assumes "quiet w ''auth_success''" "quiet w ''auth_error''"
  shows "handlers_of (authenticating w h p tok) t =
     (if t = ''auth_success''
      then handlers_of w t @ [HandleAuthResponse (length (promises w)) (next_timer w)]
      else if t = ''auth_error''
      then handlers_of w t @ [HandleAuthError (length (promises w)) (next_timer w)]
      else handlers_of w t)"
proof -
  have n: "HandleAuthResponse a tm \<notin> set (handlers_of w ''auth_success'')"
    "HandleAuthError a tm \<notin> set (handlers_of w ''auth_error'')" for a tm
    using assms by (auto simp: quiet_def list_all_iff)
  have f: "handlers_of (send m v) t' = handlers_of v t'"
    "handlers_of (set_timer k ms v) t' = handlers_of v t'"
    "handlers_of (new_promise r v) t' = handlers_of v t'" for m v k ms r t'
    by (simp_all add: handlers_of_def)
  show ?thesis using n
    by (simp add: authenticating_def handlers_of_on f set_add_def)
qed


lemma forEach_consumers_then:
  "list_all is_consumer cs \<Longrightarrow> set cs \<subseteq> set (handlers_of w t) \<Longrightarrow>
   forEach (guarded_call t d) t (cs @ hs) w
   = forEach (guarded_call t d) t hs (logs (consumer_calls (consumer_throws w) t d cs) w)"
proof (induction cs arbitrary: w)
  case Nil
  show ?case by simp
next
  case (Cons c cs)
  from Cons.prems obtain n where c: "c = Consumer n" by (cases c) simp_all
  let ?w1 = "logs (consumer_calls (consumer_throws w) t d [Consumer n]) w"
  have "forEach (guarded_call t d) t (cs @ hs) ?w1
        = forEach (guarded_call t d) t hs (logs (consumer_calls (consumer_throws ?w1) t d cs) ?w1)"
    using Cons.prems by (intro Cons.IH) simp_all
  then show ?case using Cons.prems c by (simp add: guarded_call_consumer)
qed

text \<open>An event whose handlers are consumers followed by one listener of a handshake.\<close>

lemma emit_listener_last:
  assumes "eventHandlers w t = Some (cs @ [l])" "list_all is_consumer cs"
  shows "emit t d w = Returned (after_call t d l (logs (consumer_calls (consumer_throws w) t d cs) w))"
proof -
  have h: "handlers_of w t = cs @ [l]" using assms(1) by (simp add: handlers_of_def)
  have "forEach (guarded_call t d) t (cs @ [l]) w
        = forEach (guarded_call t d) t [l] (logs (consumer_calls (consumer_throws w) t d cs) w)"
    using assms(2) h by (intro forEach_consumers_then) auto
  also have "\<dots> = Returned (after_call t d l (logs (consumer_calls (consumer_throws w) t d cs) w))"
    using h by (simp add: guarded_call_after)
  finally show ?thesis using assms(1) by (simp add: emit_def)
qed




text \<open>What \<open>handleAuthError\<close> passes to \<open>new Error\<close> for the frame \<open>m\<close>.\<close>

definition auth_error_reason :: "jsval \<Rightarrow> jsval" where
  "auth_error_reason m =
     or_else (get_prop (or_else (get_prop m ''data'') m) ''message'')
       (JStr ''Authentication failed'')"

lemma truthy_not_null: "truthy v \<Longrightarrow> v \<noteq> JNull"
  by (cases v) simp_all

lemma authenticating_fields:
  "eventHandlers (authenticating w h p tok) ''auth_error''
     = Some (set_add (HandleAuthError (length (promises w)) (next_timer w))
               (handlers_of w ''auth_error''))"
  "eventHandlers (authenticating w h p tok) ''auth_success''
     = Some (set_add (HandleAuthResponse (length (promises w)) (next_timer w))
               (handlers_of w ''auth_success''))"
  "promises (authenticating w h p tok)
     = promises w @ [\<lparr>status = Pending, reaction = AuthChain p\<rparr>]"
  "timers (authenticating w h p tok)
     = filter (\<lambda>t. tid t \<noteq> h) (timers w)
       @ [\<lparr>tid = next_timer w, kind = AuthTimer (length (promises w)), delay = 5000\<rparr>]"
  "next_timer (authenticating w h p tok) = Suc (next_timer w)"
  "microtasks (authenticating w h p tok) = microtasks w"
  "connectionState (authenticating w h p tok) = connectionState w"
  "authenticated (authenticating w h p tok) = authenticated w"
  "reconnectAttempts (authenticating w h p tok) = reconnectAttempts w"
  "reconnectInterval (authenticating w h p tok) = reconnectInterval w"
  "reconnectTimeout (authenticating w h p tok) = reconnectTimeout w"
  "heartbeatInterval (authenticating w h p tok) = heartbeatInterval w"
  "ws (authenticating w h p tok) = ws w" "sockets (authenticating w h p tok) = sockets w"
  "token (authenticating w h p tok) = token w"
  "consumer_throws (authenticating w h p tok) = consumer_throws w"
  by (simp_all add: authenticating_def on_def emits_def handlers_of_def)

text \<open>The state after the listener for \<open>auth_error\<close> has run on the frame's payload \<open>d\<close>.\<close>

definition auth_refused :: "client \<Rightarrow> nat \<Rightarrow> nat \<Rightarrow> string \<Rightarrow> jsval \<Rightarrow> client" where
  "auth_refused w h p tok d =
     after_call ''auth_error'' d (HandleAuthError (length (promises w)) (next_timer w))
       (logs (consumer_calls (consumer_throws w) ''auth_error'' d (handlers_of w ''auth_error''))
          (authenticating w h p tok))"

lemma callback_auth_error:
  assumes "handshake_ready w h p i tok" "quiet w ''auth_error''"
    "get_prop m ''type'' = Some (JStr ''auth_error'')"
  shows "callback (SocketMessage i (Some m)) (authenticating w h p tok)
         = auth_refused w h p tok (or_else (get_prop m ''data'') m)"
proof -
  let ?w1 = "authenticating w h p tok"
  let ?l = "HandleAuthError (length (promises w)) (next_timer w)"
  have nm: "?l \<notin> set (handlers_of w ''auth_error'')"
    using assms(2) by (auto simp: quiet_def list_all_iff)
  have eh: "eventHandlers ?w1 ''auth_error'' = Some (handlers_of w ''auth_error'' @ [?l])"
    using nm by (simp add: authenticating_fields set_add_def)
  have cs: "list_all is_consumer (handlers_of w ''auth_error'')"
    using assms(2) by (simp add: quiet_def)
  have mn: "m \<noteq> JNull" using assms(3) by auto
  have g: "i < length (sockets ?w1)" "ready_of ?w1 i = OPEN"
    using assms(1) by (auto simp: handshake_ready_def authenticating_fields ready_of_def)
  have "handleMessage m ?w1 = emit ''auth_error'' (or_else (get_prop m ''data'') m) ?w1"
    using assms(3) mn by (simp add: handleMessage_def)
  also have "\<dots> = Returned (auth_refused w h p tok (or_else (get_prop m ''data'') m))"
    unfolding auth_refused_def using emit_listener_last[OF eh cs]
    by (simp add: authenticating_fields)
  finally show ?thesis using g by (simp add: callback_def onmessage_def)
qed

lemma auth_refused_eq:
  assumes "d \<noteq> JNull"
  shows "auth_refused w h p tok d =
     settle (length (promises w))
       (Rejected (or_else (get_prop d ''message'') (JStr ''Authentication failed'')))
       (off ''auth_error'' (HandleAuthError (length (promises w)) (next_timer w))
          (off ''auth_success'' (HandleAuthResponse (length (promises w)) (next_timer w))
             (clear_timer (next_timer w)
                (emits (Invoked ''auth_error''
                          (HandleAuthError (length (promises w)) (next_timer w)) d)
                   (logs (consumer_calls (consumer_throws w) ''auth_error'' d
                            (handlers_of w ''auth_error''))
                      (authenticating w h p tok))))))"
  using assms by (simp add: auth_refused_def after_call_auth_error handleAuthError_def Let_def)


lemma find_timer_unique:
  assumes "timers_wf w" "find_timer h w = Some T" "t \<in> set (timers w)" "tid t = h"
  shows "t = T"
proof -
  have T: "T \<in> set (timers w)" "tid T = h"
    using assms(2) by (auto simp: find_timer_def find_Some_iff)
  have "inj_on tid (set (timers w))"
    using assms(1) by (simp add: timers_wf_def distinct_map)
  then show ?thesis using T assms(3,4) by (auto dest: inj_onD)
qed



lemma find_append_None: "find P xs = None \<Longrightarrow> find P (xs @ ys) = find P ys"
  by (induction xs) (auto split: if_splits)

lemma find_fresh_timer:
  assumes "timers_wf w"
  shows "find (\<lambda>t. tid t = next_timer w) (filter P (timers w) @ [T]) =
           (if tid T = next_timer w then Some T else None)"
proof -
  have "find (\<lambda>t. tid t = next_timer w) (filter P (timers w)) = None"
    using assms by (auto simp: timers_wf_def find_None_iff)
  then show ?thesis by (simp add: find_append_None)
qed






definition auth_timed_out :: jsval where
  "auth_timed_out = JStr ''Authentication timeout''"

lemma callback_auth_timeout:
  assumes "timers_wf w"
  shows "callback (TimerFires (next_timer w) ctor) (authenticating w h p tok)
         = settle (length (promises w)) (Rejected auth_timed_out)
             (clear_timer (next_timer w) (authenticating w h p tok))"
proof -
  have "find_timer (next_timer w) (authenticating w h p tok)
        = Some \<lparr>tid = next_timer w, kind = AuthTimer (length (promises w)), delay = 5000\<rparr>"
    using find_fresh_timer[OF assms] by (simp add: find_timer_def authenticating_fields)
  then show ?thesis
    by (simp add: callback_def fire_def auth_timeout_def auth_timed_out_def)
qed




definition auth_error_frame :: jsval where
  "auth_error_frame = JObj [(''type'', JStr ''auth_error''), (''message'', JStr ''invalid token'')]"

text \<open>A manual \<open>connect\<close> whose socket has opened; a consumer listens for \<open>auth_error\<close>.\<close>

definition w3 :: client where
  "w3 = run [CallOn ''auth_error'' 7, CallConnect ''tok'' None, SocketOpen 0]
          (new_client (\<lambda>c d. False))"


lemma w3_facts:
  "handshake_ready w3 0 0 0 ''tok''" "reaction (promises w3 ! 0) = ByCaller"
  "quiet w3 ''auth_success''" "quiet w3 ''auth_error''" "timers_wf w3"
  "get_prop auth_error_frame ''type'' = Some (JStr ''auth_error'')"
  "next_timer w3 = 1" "connectionState w3 = Connected" "reconnect_delays w3 = []"
  "auth_error_reason auth_error_frame = JStr ''invalid token''"
  by (simp_all add: w3_def handshake_ready_def quiet_def timers_wf_def auth_error_frame_def
      auth_error_reason_def model_defs)



subsection \<open>The listeners of the handshake\<close>

lemma startHeartbeat_frame [simp]:
  "eventHandlers (startHeartbeat w) = eventHandlers w"
  "microtasks (startHeartbeat w) = microtasks w" "promises (startHeartbeat w) = promises w"
  "trace (startHeartbeat w) = trace w" "connectionState (startHeartbeat w) = connectionState w"
  "authenticated (startHeartbeat w) = authenticated w"
  "reconnectAttempts (startHeartbeat w) = reconnectAttempts w"
  "reconnectInterval (startHeartbeat w) = reconnectInterval w"
  "reconnectTimeout (startHeartbeat w) = reconnectTimeout w"
  "ws (startHeartbeat w) = ws w" "sockets (startHeartbeat w) = sockets w"
  "consumer_throws (startHeartbeat w) = consumer_throws w"
  by (simp_all add: startHeartbeat_def Let_def)

lemma attemptReconnect_registry:
  assumes "registry_wf w"
  shows "eventHandlers (world_of (attemptReconnect w)) = eventHandlers w"
proof -
  have q: "quiet w ''reconnecting''" "quiet w ''max_reconnect_attempts_reached''"
    using assms by (simp_all add: registry_wf_quiet)
  show ?thesis unfolding attemptReconnect_quiet[OF q] by simp
qed

lemma run_reaction_registry:
  assumes "registry_wf w"
  shows "eventHandlers (world_of (run_reaction p w)) = eventHandlers w"
proof -
  have q: "quiet w ''reconnected''" using assms by (simp add: registry_wf_quiet)
  let ?w' = "w\<lparr>reconnectInterval := min (reconnectInterval w * 2) maxReconnectInterval\<rparr>"
  have "registry_wf ?w'" using assms by (simp add: registry_wf_cong[of ?w' w])
  then have "eventHandlers (world_of (reconnect_failed w)) = eventHandlers w"
    using attemptReconnect_registry[of ?w'] by (simp add: reconnect_failed_def)
  then show ?thesis
    by (simp add: run_reaction_def emit_quiet[OF q] split: pstate.splits reaction.splits)
qed

lemma drain_registry:
  "registry_wf w \<Longrightarrow> eventHandlers (drain w) = eventHandlers w"
proof (induction w rule: drain.induct)
  case (1 w)
  show ?case
  proof (cases "microtasks w")
    case Nil
    then show ?thesis by (simp add: drain_Nil)
  next
    case (Cons p ps)
    let ?v = "w\<lparr>microtasks := ps\<rparr>"
    have wf: "registry_wf ?v" using "1.prems" by (simp add: registry_wf_cong[of ?v w])
    have e: "eventHandlers (world_of (run_reaction p ?v)) = eventHandlers w"
      using run_reaction_registry[OF wf, of p] by simp
    then have "registry_wf (world_of (run_reaction p ?v))"
      using "1.prems" by (simp add: registry_wf_cong[of "world_of (run_reaction p ?v)" w])
    then show ?thesis using "1.IH"[OF Cons] e by (simp add: drain_Cons[OF Cons])
  qed
qed

lemma step_registry:
  assumes "sane w"
  shows "handlers_of (step e w) t = handlers_of (callback e w) t"
proof -
  have "registry_wf (callback e w)" using sane_callback[OF assms, of e] by (simp add: sane_def)
  then show ?thesis by (simp add: step_def handlers_of_def drain_registry)
qed

text \<open>The frame \<open>auth_success\<close> arriving during the handshake.\<close>

lemma callback_auth_success:
  assumes "handshake_ready w h p i tok" "quiet w ''auth_success''"
    "get_prop m ''type'' = Some (JStr ''auth_success'')"
  shows "callback (SocketMessage i (Some m)) (authenticating w h p tok)
         = handleAuthResponse (length (promises w)) (next_timer w)
             (emits (Invoked ''auth_success''
                       (HandleAuthResponse (length (promises w)) (next_timer w))
                       (or_else (get_prop m ''data'') m))
                (logs (consumer_calls (consumer_throws w) ''auth_success''
                         (or_else (get_prop m ''data'') m) (handlers_of w ''auth_success''))
                   (authenticating w h p tok)))"
proof -
  let ?w1 = "authenticating w h p tok"
  let ?l = "HandleAuthResponse (length (promises w)) (next_timer w)"
  have nm: "?l \<notin> set (handlers_of w ''auth_success'')"
    using assms(2) by (auto simp: quiet_def list_all_iff)
  have eh: "eventHandlers ?w1 ''auth_success'' = Some (handlers_of w ''auth_success'' @ [?l])"
    using nm by (simp add: authenticating_fields set_add_def)
  have cs: "list_all is_consumer (handlers_of w ''auth_success'')"
    using assms(2) by (simp add: quiet_def)
  have mn: "m \<noteq> JNull" using assms(3) by auto
  have g: "i < length (sockets ?w1)" "ready_of ?w1 i = OPEN"
    using assms(1) by (auto simp: handshake_ready_def authenticating_fields ready_of_def)
  have "handleMessage m ?w1 = emit ''auth_success'' (or_else (get_prop m ''data'') m) ?w1"
    using assms(3) mn by (simp add: handleMessage_def)
  also have "\<dots> = Returned (after_call ''auth_success'' (or_else (get_prop m ''data'') m) ?l
      (logs (consumer_calls (consumer_throws w) ''auth_success''
               (or_else (get_prop m ''data'') m) (handlers_of w ''auth_success'')) ?w1))"
    using emit_listener_last[OF eh cs] by (simp add: authenticating_fields)
  finally show ?thesis using g
    by (simp add: callback_def onmessage_def after_call_def guarded_call_def)
qed

text \<open>
  Claim C6, on the code. In a handshake that starts with no listener of an earlier one
  in the registry: the two listeners are registered before the \<open>auth\<close> frame is sent;
  after \<open>auth_success\<close> and after \<open>auth_error\<close> every event type has the handlers it had
  before the handshake; but after the 5000 ms timeout both listeners are still
  registered.
\<close>

theorem handshake_listeners:
  assumes "handshake_ready w h p i tok" "sane w"
    "quiet w ''auth_success''" "quiet w ''auth_error''"
    "get_prop ok ''type'' = Some (JStr ''auth_success'')"
    "get_prop ko ''type'' = Some (JStr ''auth_error'')"
  shows "(let w1 = step (TimerFires h ctor) w;
              a = length (promises w); tm = next_timer w
          in trace w1 = trace w @
               [Registered ''auth_success'' (HandleAuthResponse a tm),
                Registered ''auth_error'' (HandleAuthError a tm),
                WireSend i (auth_frame tok)]
           \<and> handlers_of w1 ''auth_success'' = handlers_of w ''auth_success'' @ [HandleAuthResponse a tm]
           \<and> handlers_of w1 ''auth_error'' = handlers_of w ''auth_error'' @ [HandleAuthError a tm]
           \<and> (\<forall>t. handlers_of (step (SocketMessage i (Some ok)) w1) t = handlers_of w t)
           \<and> (\<forall>t. handlers_of (step (SocketMessage i (Some ko)) w1) t = handlers_of w t)
           \<and> handlers_of (step (TimerFires tm ctor') w1) ''auth_success''
               = handlers_of w ''auth_success'' @ [HandleAuthResponse a tm]
           \<and> handlers_of (step (TimerFires tm ctor') w1) ''auth_error''
               = handlers_of w ''auth_error'' @ [HandleAuthError a tm]
           \<and> handlers_of (step (TimerFires tm ctor') w1) ''auth_success''
               \<noteq> handlers_of w ''auth_success'')"
proof -
  let ?w1 = "authenticating w h p tok"
  let ?a = "length (promises w)"
  let ?tm = "next_timer w"
  have w1: "step (TimerFires h ctor) w = ?w1" by (rule step_settle_timer[OF assms(1)])
  have s1: "sane ?w1" using sane_step[OF assms(2), of "TimerFires h ctor"] by (simp add: w1)
  have tw: "timers_wf w" using assms(2) by (simp add: sane_def)
  note hs = authenticating_handlers[OF assms(3,4), of h p tok]
  have n: "HandleAuthResponse ?a ?tm \<notin> set (handlers_of w ''auth_success'')"
    "HandleAuthError ?a ?tm \<notin> set (handlers_of w ''auth_error'')"
    using assms(3,4) by (auto simp: quiet_def list_all_iff)
  have dn: "or_else (get_prop ko ''data'') ko \<noteq> JNull"
    using assms(6) by (auto simp: or_else_def truthy_not_null split: option.splits)
  have ok: "handlers_of (step (SocketMessage i (Some ok)) ?w1) t = handlers_of w t" for t
    unfolding step_registry[OF s1] callback_auth_success[OF assms(1,3,5)]
    using n by (simp add: handlers_of_handleAuthResponse hs)
  have ko: "handlers_of (step (SocketMessage i (Some ko)) ?w1) t = handlers_of w t" for t
    unfolding step_registry[OF s1] callback_auth_error[OF assms(1,4,6)]
      auth_refused_eq[OF dn]
    using n by (simp add: handlers_of_off hs)
  have silent: "handlers_of (step (TimerFires ?tm ctor') ?w1) t = handlers_of ?w1 t" for t
    unfolding step_registry[OF s1] callback_auth_timeout[OF tw]
    by simp
  show ?thesis
    unfolding Let_def w1
    using authenticating_trace[OF assms(1)] ok ko
    by (simp add: silent hs)
qed


lemma w3_sane: "sane w3"
  unfolding w3_def by (intro sane_run sane_new)

text \<open>
  The failing input of C6: the handshake of \<open>w3\<close> with no answer from the server. The
  listeners stay; an \<open>auth_success\<close> that arrives after the timeout still runs the stale
  listener, which marks the client authenticated although \<open>connect\<close> was rejected.
\<close>

theorem handshake_listeners_witness:
  "handshake_ready w3 0 0 0 ''tok'' \<and> sane w3
   \<and> quiet w3 ''auth_success'' \<and> quiet w3 ''auth_error''
   \<and> get_prop auth_success_frame ''type'' = Some (JStr ''auth_success'')
   \<and> get_prop auth_error_frame ''type'' = Some (JStr ''auth_error'')
   \<and> handlers_of w3 ''auth_success'' = [] \<and> handlers_of w3 ''auth_error'' = [Consumer 7]
   \<and> handlers_of (step (SocketMessage 0 (Some auth_success_frame)) (step (TimerFires 0 None) w3))
         ''auth_success'' = []
   \<and> handlers_of (step (SocketMessage 0 (Some auth_error_frame)) (step (TimerFires 0 None) w3))
         ''auth_error'' = [Consumer 7]
   \<and> handlers_of (step (TimerFires 1 None) (step (TimerFires 0 None) w3)) ''auth_success''
       = [HandleAuthResponse 1 1]
   \<and> handlers_of (step (TimerFires 1 None) (step (TimerFires 0 None) w3)) ''auth_error''
       = [Consumer 7, HandleAuthError 1 1]
   \<and> status (promises (run [TimerFires 0 None, TimerFires 1 None,
                              SocketMessage 0 (Some auth_success_frame)] w3) ! 0)
       = Rejected (JStr ''Authentication timeout'')
   \<and> connectionState (run [TimerFires 0 None, TimerFires 1 None,
                             SocketMessage 0 (Some auth_success_frame)] w3) = Authenticated"
proof -
  have f: "get_prop auth_success_frame ''type'' = Some (JStr ''auth_success'')"
    "handlers_of w3 ''auth_success'' = []" "handlers_of w3 ''auth_error'' = [Consumer 7]"
    "length (promises w3) = 1"
    by (simp_all add: auth_success_frame_def w3_def model_defs)
  have late: "status (promises (run [TimerFires 0 None, TimerFires 1 None,
                              SocketMessage 0 (Some auth_success_frame)] w3) ! 0)
       = Rejected (JStr ''Authentication timeout'')
   \<and> connectionState (run [TimerFires 0 None, TimerFires 1 None,
                             SocketMessage 0 (Some auth_success_frame)] w3) = Authenticated"
    by (simp add: auth_success_frame_def w3_def model_defs)
  show ?thesis
    using handshake_listeners[OF w3_facts(1) w3_sane w3_facts(3,4) f(1) w3_facts(6), of None None]
      w3_facts w3_sane f late
    unfolding Let_def by simp
qed


subsection \<open>A reconnect cycle whose socket opens and whose handshake fails\<close>

text \<open>
  The reactions once \<open>authenticate\<close> is rejected in a cycle of \<open>attemptReconnect\<close>: the
  \<open>catch\<close> doubles the interval and runs \<open>attemptReconnect\<close> again.
\<close>

definition next_try :: "client \<Rightarrow> client" where
  "next_try w = world_of (reconnect_failed w)"

lemma next_try_fields:
  assumes "quiet w ''reconnecting''" "quiet w ''max_reconnect_attempts_reached''"
    "reconnectAttempts w < maxReconnectAttempts"
  shows "reconnectAttempts (next_try w) = reconnectAttempts w + 1"
    "reconnectInterval (next_try w) = min (reconnectInterval w * 2) maxReconnectInterval"
    "timers (next_try w) =
       (case reconnectTimeout w of None \<Rightarrow> timers w
        | Some h \<Rightarrow> filter (\<lambda>t. tid t \<noteq> h) (timers w))
       @ [\<lparr>tid = next_timer w, kind = ReconnectTimer,
            delay = min (reconnectInterval w * 2) maxReconnectInterval\<rparr>]"
    "reconnectTimeout (next_try w) = Some (next_timer w)"
    "trace (next_try w) = trace w @
       consumer_calls (consumer_throws w) ''reconnecting''
         (JObj [(''attempt'', JNum (int (reconnectAttempts w + 1))),
                (''maxAttempts'', JNum (int maxReconnectAttempts)),
                (''delay'', JNum (int (min (reconnectInterval w * 2) maxReconnectInterval)))])
         (handlers_of w ''reconnecting'')"
    "connectionState (next_try w) = connectionState w" "microtasks (next_try w) = microtasks w"
    "authenticated (next_try w) = authenticated w" "promises (next_try w) = promises w"
    "eventHandlers (next_try w) = eventHandlers w" "ws (next_try w) = ws w"
    "token (next_try w) = token w" "sockets (next_try w) = sockets w"
    "next_timer (next_try w) = Suc (next_timer w)"
    "heartbeatInterval (next_try w) = heartbeatInterval w"
    "consumer_throws (next_try w) = consumer_throws w"
proof -
  let ?w' = "w\<lparr>reconnectInterval := min (reconnectInterval w * 2) maxReconnectInterval\<rparr>"
  have q: "quiet ?w' ''reconnecting''" "quiet ?w' ''max_reconnect_attempts_reached''"
    using assms(1,2) by (simp_all add: quiet_def handlers_of_def)
  have h: "handlers_of ?w' t = handlers_of w t" for t by (simp add: handlers_of_def)
  have n: "next_try w = (set_timer ReconnectTimer (reconnectInterval ?w')
              (clearReconnectTimeout
                 (logs (consumer_calls (consumer_throws ?w') ''reconnecting''
                          (reconnecting_payload ?w') (handlers_of ?w' ''reconnecting''))
                    (?w'\<lparr>reconnectAttempts := reconnectAttempts ?w' + 1\<rparr>))))
             \<lparr>reconnectTimeout := Some (next_timer ?w')\<rparr>"
    using assms(3) by (simp add: next_try_def reconnect_failed_def attemptReconnect_quiet[OF q])
  show "reconnectAttempts (next_try w) = reconnectAttempts w + 1"
    "reconnectInterval (next_try w) = min (reconnectInterval w * 2) maxReconnectInterval"
    "reconnectTimeout (next_try w) = Some (next_timer w)"
    "connectionState (next_try w) = connectionState w" "microtasks (next_try w) = microtasks w"
    "authenticated (next_try w) = authenticated w" "promises (next_try w) = promises w"
    "eventHandlers (next_try w) = eventHandlers w" "ws (next_try w) = ws w"
    "token (next_try w) = token w" "sockets (next_try w) = sockets w"
    "next_timer (next_try w) = Suc (next_timer w)"
    "heartbeatInterval (next_try w) = heartbeatInterval w"
    "consumer_throws (next_try w) = consumer_throws w"
    unfolding n by simp_all
  show "timers (next_try w) =
       (case reconnectTimeout w of None \<Rightarrow> timers w
        | Some h \<Rightarrow> filter (\<lambda>t. tid t \<noteq> h) (timers w))
       @ [\<lparr>tid = next_timer w, kind = ReconnectTimer,
            delay = min (reconnectInterval w * 2) maxReconnectInterval\<rparr>]"
    unfolding n by (simp add: timers_clearReconnectTimeout cong: option.case_cong)
  show "trace (next_try w) = trace w @
       consumer_calls (consumer_throws w) ''reconnecting''
         (JObj [(''attempt'', JNum (int (reconnectAttempts w + 1))),
                (''maxAttempts'', JNum (int maxReconnectAttempts)),
                (''delay'', JNum (int (min (reconnectInterval w * 2) maxReconnectInterval)))])
         (handlers_of w ''reconnecting'')"
    unfolding n by (simp add: h reconnecting_payload_def)
qed




lemma sane_logs [simp]: "sane (logs es w) = sane w"
  by (rule sane_cong) simp_all







lemma about_other: "t' \<noteq> t \<Longrightarrow> filter (about t') (consumer_calls thr t d hs) = []"
  by (induction thr t d hs rule: consumer_calls.induct) simp_all










subsection \<open>The reconnection loop when no socket opens\<close>

text \<open>
  The loop between two attempts: \<open>n\<close> attempts counted, the timer of the next one
  pending with delay \<open>d\<close>, which is the current interval.
\<close>

definition retrying :: "client \<Rightarrow> nat \<Rightarrow> nat \<Rightarrow> bool" where
  "retrying w n d \<longleftrightarrow>
     sane w \<and> microtasks w = [] \<and> connectionState w = Disconnected \<and> \<not> authenticated w
   \<and> (\<exists>tok. token w = Some tok \<and> tok \<noteq> [])
   \<and> reconnectAttempts w = n \<and> reconnectInterval w = d
   \<and> (\<exists>h. reconnectTimeout w = Some h
          \<and> \<lparr>tid = h, kind = ReconnectTimer, delay = d\<rparr> \<in> set (timers w))"

text \<open>
  One failed cycle: the reconnect timer fires and either \<open>new WebSocket\<close> throws \<open>e\<close>
  (\<open>Some e\<close>), or the socket reports an error while connecting and closes (\<open>None\<close>).
\<close>

definition fail_cycle :: "jsval option \<Rightarrow> client \<Rightarrow> client" where
  "fail_cycle f w =
     (case reconnectTimeout w of
        None \<Rightarrow> w
      | Some h \<Rightarrow>
          (case f of
             Some e \<Rightarrow> step (TimerFires h (Some e)) w
           | None \<Rightarrow>
               run [TimerFires h None, SocketError (length (sockets w)),
                    SocketClose (length (sockets w)) 1006 []] w))"

text \<open>What \<open>g\<close> reads before each of the failed cycles \<open>fs\<close> and after the last.\<close>

fun observe :: "(client \<Rightarrow> 'a) \<Rightarrow> jsval option list \<Rightarrow> client \<Rightarrow> 'a list" where
  "observe g [] w = [g w]"
| "observe g (f # fs) w = g w # observe g fs (fail_cycle f w)"

text \<open>The calls of the handlers of \<open>max_reconnect_attempts_reached\<close> so far.\<close>

definition exhaustion :: "client \<Rightarrow> obs list" where
  "exhaustion w = filter (about ''max_reconnect_attempts_reached'') (trace w)"

text \<open>The loop has stopped: nothing is queued and no reconnect timer is pending.\<close>

definition stopped :: "client \<Rightarrow> bool" where
  "stopped w \<longleftrightarrow> microtasks w = [] \<and> reconnect_delays w = []"

text \<open>
  The delays from \<open>d\<close> on when each \<open>catch\<close> doubles the interval up to the cap, until
  no timer is set after \<open>k + 1\<close> more failures.
\<close>

fun backoff :: "nat \<Rightarrow> nat \<Rightarrow> nat list list" where
  "backoff 0 d = [[d], []]"
| "backoff (Suc k) d = [d] # backoff k (min (d * 2) maxReconnectInterval)"

fun fail_cycles :: "jsval option list \<Rightarrow> client \<Rightarrow> client" where
  "fail_cycles [] w = w"
| "fail_cycles (f # fs) w = fail_cycles fs (fail_cycle f w)"

lemma find_member:
  assumes "timers_wf w" "T \<in> set (timers w)"
  shows "find_timer (tid T) w = Some T"
proof -
  have "\<exists>t. find_timer (tid T) w = Some t"
    using assms(2) by (cases "find_timer (tid T) w") (auto simp: find_timer_def find_None_iff)
  then obtain t where t: "find_timer (tid T) w = Some t" by blast
  then show ?thesis using find_timer_unique[OF assms(1) t assms(2)] by simp
qed

lemma only_reconnect_timer:
  assumes "timers_wf w" "reconnectTimeout w = Some h" "T \<in> set (timers w)" "tid T = h"
    "kind T = ReconnectTimer"
  shows "filter (\<lambda>t. kind t = ReconnectTimer) (timers w) = [T]"
proof -
  let ?xs = "filter (\<lambda>t. kind t = ReconnectTimer) (timers w)"
  have f: "find_timer h w = Some T" using find_member[OF assms(1,3)] assms(4) by simp
  have all: "\<forall>t \<in> set ?xs. t = T"
    using assms(1,2) find_timer_unique[OF assms(1) f] by (auto simp: timers_wf_def)
  have "distinct (map tid ?xs)" using assms(1) by (simp add: timers_wf_def distinct_map_filter)
  then have d: "distinct ?xs" by (simp add: distinct_map)
  have m: "T \<in> set ?xs" using assms(3,5) by simp
  from d all m show ?thesis
    by (cases ?xs; cases "tl ?xs") auto
qed

lemma retrying_delays: "retrying w n d \<Longrightarrow> reconnect_delays w = [d]"
  unfolding retrying_def reconnect_delays_def sane_def
  by (auto dest!: only_reconnect_timer[where T = "\<lparr>tid = _, kind = ReconnectTimer, delay = d\<rparr>"])

text \<open>\<open>attemptReconnect\<close> at the limit.\<close>

lemma next_try_exhausted:
  assumes "quiet w ''max_reconnect_attempts_reached''"
    "maxReconnectAttempts \<le> reconnectAttempts w"
  shows "next_try w =
     logs (consumer_calls (consumer_throws w) ''max_reconnect_attempts_reached''
             (JObj [(''attempts'', JNum (int (reconnectAttempts w)))])
             (handlers_of w ''max_reconnect_attempts_reached''))
       (w\<lparr>reconnectInterval := min (reconnectInterval w * 2) maxReconnectInterval\<rparr>)"
proof -
  let ?w' = "w\<lparr>reconnectInterval := min (reconnectInterval w * 2) maxReconnectInterval\<rparr>"
  have q: "quiet ?w' ''max_reconnect_attempts_reached''"
    using assms(1) by (simp add: quiet_def handlers_of_def)
  have h: "handlers_of ?w' t = handlers_of w t" for t by (simp add: handlers_of_def)
  show ?thesis
    using assms(2)
    by (simp add: next_try_def reconnect_failed_def attemptReconnect_def emit_quiet[OF q] h)
qed

lemma drain_direct_reject:
  assumes "microtasks v = [p]" "p < length (promises v)"
    "promises v ! p = \<lparr>status = Rejected e, reaction = ByReconnect\<rparr>"
    "quiet v ''reconnecting''" "quiet v ''max_reconnect_attempts_reached''"
  shows "drain v = next_try (v\<lparr>microtasks := []\<rparr>)"
proof -
  let ?v2 = "v\<lparr>microtasks := []\<rparr>"
  have 2: "world_of (run_reaction p ?v2) = next_try ?v2"
    using assms(2,3) by (simp add: run_reaction_def next_try_def)
  let ?v3 = "?v2\<lparr>reconnectInterval := min (reconnectInterval ?v2 * 2) maxReconnectInterval\<rparr>"
  have q: "quiet ?v3 ''reconnecting''" "quiet ?v3 ''max_reconnect_attempts_reached''"
    using assms(4,5) by (simp_all add: quiet_def handlers_of_def)
  have m: "microtasks (next_try ?v2) = []"
    unfolding next_try_def reconnect_failed_def attemptReconnect_quiet[OF q] by simp
  have "drain v = drain (next_try ?v2)" using drain_Cons[OF assms(1)] 2 by simp
  also have "\<dots> = next_try ?v2" using m by (rule drain_Nil)
  finally show ?thesis .
qed


text \<open>
  The state \<open>x\<close> in which the \<open>catch\<close> of a cycle runs when the cycle of \<open>w\<close> failed
  before its socket opened.
\<close>

definition failing :: "client \<Rightarrow> client \<Rightarrow> nat \<Rightarrow> bool" where
  "failing x w h \<longleftrightarrow>
     microtasks x = [] \<and> reconnectAttempts x = reconnectAttempts w
   \<and> reconnectInterval x = reconnectInterval w \<and> token x = token w
   \<and> \<not> authenticated x \<and> timers x = filter (\<lambda>t. tid t \<noteq> h) (timers w)
   \<and> reconnectTimeout x = Some h \<and> eventHandlers x = eventHandlers w
   \<and> consumer_throws x = consumer_throws w
   \<and> filter (about ''max_reconnect_attempts_reached'') (trace x)
       = filter (about ''max_reconnect_attempts_reached'') (trace w)
   \<and> sane x"

lemma retrying_timer:
  assumes "retrying w n d" "reconnectTimeout w = Some h"
  shows "find_timer h w = Some \<lparr>tid = h, kind = ReconnectTimer, delay = d\<rparr>"
proof -
  have "timers_wf w" "\<lparr>tid = h, kind = ReconnectTimer, delay = d\<rparr> \<in> set (timers w)"
    using assms by (auto simp: retrying_def sane_def)
  from find_member[OF this] show ?thesis by simp
qed

lemma callback_reconnect_timer:
  assumes "retrying w n d" "reconnectTimeout w = Some h" "token w = Some tok"
  shows "callback (TimerFires h ctor) w = connect tok ctor ByReconnect (clear_timer h w)"
  using assms(1,3) retrying_timer[OF assms(1,2)]
  by (auto simp: callback_def fire_def reconnect_timeout_def retrying_def)

lemma cycle_thrown:
  assumes "retrying w n d" "reconnectTimeout w = Some h"
  shows "\<exists>x. step (TimerFires h (Some e)) w = next_try x \<and> failing x w h
           \<and> connectionState x = Disconnected"
proof -
  obtain tok where tok: "token w = Some tok" "tok \<noteq> []"
    using assms(1) by (auto simp: retrying_def)
  have r: "sane w" "microtasks w = []" "connectionState w = Disconnected" "\<not> authenticated w"
    using assms(1) by (simp_all add: retrying_def)
  let ?v = "callback (TimerFires h (Some e)) w"
  let ?p = "length (promises w)"
  have v: "?v = connect tok (Some e) ByReconnect (clear_timer h w)"
    by (rule callback_reconnect_timer[OF assms tok(1)])
  have sv: "sane ?v" using r(1) by (rule sane_callback)
  have f: "microtasks ?v = [?p]" "?p < length (promises ?v)"
    "promises ?v ! ?p = \<lparr>status = Rejected e, reaction = ByReconnect\<rparr>"
    "reconnectAttempts ?v = reconnectAttempts w" "reconnectInterval ?v = reconnectInterval w"
    "token ?v = token w" "\<not> authenticated ?v"
    "timers ?v = filter (\<lambda>t. tid t \<noteq> h) (timers w)" "reconnectTimeout ?v = Some h"
    "eventHandlers ?v = eventHandlers w" "consumer_throws ?v = consumer_throws w"
    "trace ?v = trace w" "connectionState ?v = Disconnected"
    unfolding v using r tok assms(2)
    by (simp_all add: connect_def new_promise_def settle_def clear_timer_def Let_def)
  have q: "quiet ?v ''reconnecting''" "quiet ?v ''max_reconnect_attempts_reached''"
    using sv by (simp_all add: sane_def registry_wf_quiet)
  let ?x = "?v\<lparr>microtasks := []\<rparr>"
  have "step (TimerFires h (Some e)) w = next_try ?x"
    unfolding step_def by (rule drain_direct_reject[OF f(1,2,3) q])
  moreover have "sane ?x" using sv by (simp add: sane_cong[of ?x ?v])
  then have "failing ?x w h" using f by (simp add: failing_def)
  moreover have "connectionState ?x = Disconnected" using f by simp
  ultimately show ?thesis by blast
qed


lemma callback_error:
  assumes "i < length (sockets a)" "ready_of a i \<noteq> CLOSED"
  shows "callback (SocketError i) a = world_of (onerror (owner (sockets a ! i)) a)"
  using assms by (simp add: callback_def)

lemma cycle_refused:
  assumes "retrying w n d" "reconnectTimeout w = Some h"
  shows "\<exists>x. run [TimerFires h None, SocketError (length (sockets w))] w = next_try x
           \<and> failing x w h \<and> length (sockets w) < length (sockets x)
           \<and> ready_of x (length (sockets w)) = CONNECTING"
proof -
  obtain tok where tok: "token w = Some tok" "tok \<noteq> []"
    using assms(1) by (auto simp: retrying_def)
  have r: "sane w" "microtasks w = []" "connectionState w = Disconnected" "\<not> authenticated w"
    using assms(1) by (simp_all add: retrying_def)
  let ?i = "length (sockets w)"
  let ?p = "length (promises w)"
  let ?a = "callback (TimerFires h None) w"
  have a: "?a = connect tok None ByReconnect (clear_timer h w)"
    by (rule callback_reconnect_timer[OF assms tok(1)])
  have sa: "sane ?a" using r(1) by (rule sane_callback)
  have fa: "microtasks ?a = []" "promises ?a = promises w @ [\<lparr>status = Pending, reaction = ByReconnect\<rparr>]"
    "sockets ?a = sockets w @ [\<lparr>readyState = CONNECTING, owner = ?p\<rparr>]"
    "reconnectAttempts ?a = reconnectAttempts w" "reconnectInterval ?a = reconnectInterval w"
    "token ?a = token w" "\<not> authenticated ?a"
    "timers ?a = filter (\<lambda>t. tid t \<noteq> h) (timers w)" "reconnectTimeout ?a = Some h"
    "eventHandlers ?a = eventHandlers w" "consumer_throws ?a = consumer_throws w"
    "trace ?a = trace w" "connectionState ?a = Connecting"
    unfolding a using r tok assms(2)
    by (simp_all add: connect_def new_promise_def clear_timer_def Let_def)
  have 1: "step (TimerFires h None) w = ?a" unfolding step_def using fa(1) by (rule drain_Nil)
  have qa: "quiet ?a ''error''" using sa by (simp add: sane_def registry_wf_quiet)
  let ?l = "logs (consumer_calls (consumer_throws ?a) ''error''
                    (JObj [(''error'', JStr ''Connection error'')]) (handlers_of ?a ''error'')) ?a"
  let ?v = "settle ?p (Rejected (JStr ''Failed to connect to WebSocket'')) ?l"
  have ra: "ready_of ?a ?i = CONNECTING" by (simp add: ready_of_def fa(3))
  have "callback (SocketError ?i) ?a = world_of (onerror ?p ?a)"
    using callback_error[of ?i ?a] ra by (simp add: fa(3))
  also have "\<dots> = ?v"
    by (simp add: onerror_def emit_quiet[OF qa] and_then_def fa(13))
  finally have b: "callback (SocketError ?i) ?a = ?v" .
  have sv: "sane ?v" using sane_callback[OF sa, of "SocketError ?i"] by (simp only: b)
  have fv: "microtasks ?v = [?p]" "?p < length (promises ?v)"
    "promises ?v ! ?p = \<lparr>status = Rejected (JStr ''Failed to connect to WebSocket''),
                          reaction = ByReconnect\<rparr>"
    "reconnectAttempts ?v = reconnectAttempts w" "reconnectInterval ?v = reconnectInterval w"
    "token ?v = token w" "\<not> authenticated ?v"
    "timers ?v = filter (\<lambda>t. tid t \<noteq> h) (timers w)" "reconnectTimeout ?v = Some h"
    "eventHandlers ?v = eventHandlers w" "consumer_throws ?v = consumer_throws w"
    "sockets ?v = sockets ?a"
    using fa by (simp_all add: settle_def)
  have tv: "trace ?v = trace w @ consumer_calls (consumer_throws ?a) ''error''
                    (JObj [(''error'', JStr ''Connection error'')]) (handlers_of ?a ''error'')"
    using fa(12) by simp
  have mv: "filter (about ''max_reconnect_attempts_reached'') (trace ?v)
       = filter (about ''max_reconnect_attempts_reached'') (trace w)"
    unfolding tv by (simp add: about_other)
  have q: "quiet ?v ''reconnecting''" "quiet ?v ''max_reconnect_attempts_reached''"
    using sv by (simp_all add: sane_def registry_wf_quiet)
  let ?x = "?v\<lparr>microtasks := []\<rparr>"
  have 2: "step (SocketError ?i) ?a = next_try ?x"
    unfolding step_def b by (rule drain_direct_reject[OF fv(1,2,3) q])
  have "run [TimerFires h None, SocketError ?i] w = next_try ?x"
    using 1 2 by simp
  moreover have "sane ?x" using sv by (simp add: sane_cong[of ?x ?v])
  then have "failing ?x w h" using fv mv by (simp add: failing_def)
  moreover have "?i < length (sockets ?x)" "ready_of ?x ?i = CONNECTING"
    using fv(12) fa(3) by (simp_all add: ready_of_def)
  ultimately show ?thesis by blast
qed


lemma failing_next:
  assumes "retrying w n d" "reconnectTimeout w = Some h" "failing x w h"
    "n < maxReconnectAttempts"
  defines "y \<equiv> next_try x"
  shows "microtasks y = []" "reconnectAttempts y = Suc n"
    "reconnectInterval y = min (d * 2) maxReconnectInterval" "token y = token w"
    "\<not> authenticated y" "reconnectTimeout y = Some (next_timer x)"
    "\<lparr>tid = next_timer x, kind = ReconnectTimer, delay = min (d * 2) maxReconnectInterval\<rparr>
       \<in> set (timers y)"
    "connectionState y = connectionState x" "sockets y = sockets x"
    "filter (about ''max_reconnect_attempts_reached'') (trace y)
       = filter (about ''max_reconnect_attempts_reached'') (trace w)"
    "sane y" "eventHandlers y = eventHandlers w" "consumer_throws y = consumer_throws w"
proof -
  have x: "microtasks x = []" "reconnectAttempts x = n" "reconnectInterval x = d"
    "token x = token w" "\<not> authenticated x" "sane x"
    "filter (about ''max_reconnect_attempts_reached'') (trace x)
       = filter (about ''max_reconnect_attempts_reached'') (trace w)"
    "eventHandlers x = eventHandlers w" "consumer_throws x = consumer_throws w"
    using assms(1,3) by (simp_all add: failing_def retrying_def)
  have q: "quiet x ''reconnecting''" "quiet x ''max_reconnect_attempts_reached''"
    using x(6) by (simp_all add: sane_def registry_wf_quiet)
  have a: "reconnectAttempts x < maxReconnectAttempts" using assms(4) x(2) by simp
  note f = next_try_fields[OF q a]
  show "microtasks y = []" "reconnectAttempts y = Suc n"
    "reconnectInterval y = min (d * 2) maxReconnectInterval" "token y = token w"
    "\<not> authenticated y" "reconnectTimeout y = Some (next_timer x)"
    "connectionState y = connectionState x" "sockets y = sockets x"
    "eventHandlers y = eventHandlers w" "consumer_throws y = consumer_throws w"
    unfolding y_def using x by (simp_all add: f)
  show "\<lparr>tid = next_timer x, kind = ReconnectTimer, delay = min (d * 2) maxReconnectInterval\<rparr>
       \<in> set (timers y)"
    unfolding y_def by (simp add: f(3) x(3))
  show "filter (about ''max_reconnect_attempts_reached'') (trace y)
       = filter (about ''max_reconnect_attempts_reached'') (trace w)"
    unfolding y_def f(5) by (simp add: about_other x(7))
  show "sane y" unfolding y_def next_try_def using x(6) by (rule sane_reconnect_failed)
qed

lemma filter_about_same:
  "filter (about t) (consumer_calls thr t d hs) = consumer_calls thr t d hs"
  using about_consumer_calls[of t thr d hs] by (simp add: list_all_iff)

lemma failing_exhausted:
  assumes "retrying w n d" "reconnectTimeout w = Some h" "failing x w h"
    "maxReconnectAttempts \<le> n"
  defines "y \<equiv> next_try x"
  shows "microtasks y = []" "reconnectAttempts y = n" "\<not> authenticated y"
    "filter (\<lambda>t. kind t = ReconnectTimer) (timers y) = []"
    "connectionState y = connectionState x" "sockets y = sockets x"
    "filter (about ''max_reconnect_attempts_reached'') (trace y)
       = filter (about ''max_reconnect_attempts_reached'') (trace w)
         @ consumer_calls (consumer_throws w) ''max_reconnect_attempts_reached''
             (JObj [(''attempts'', JNum (int n))])
             (handlers_of w ''max_reconnect_attempts_reached'')"
    "sane y"
proof -
  have x: "microtasks x = []" "reconnectAttempts x = n" "reconnectInterval x = d"
    "token x = token w" "\<not> authenticated x" "sane x"
    "filter (about ''max_reconnect_attempts_reached'') (trace x)
       = filter (about ''max_reconnect_attempts_reached'') (trace w)"
    "timers x = filter (\<lambda>t. tid t \<noteq> h) (timers w)"
    "eventHandlers x = eventHandlers w" "consumer_throws x = consumer_throws w"
    using assms(1,3) by (simp_all add: failing_def retrying_def)
  have q: "quiet x ''max_reconnect_attempts_reached''"
    using x(6) by (simp add: sane_def registry_wf_quiet)
  have a: "maxReconnectAttempts \<le> reconnectAttempts x" using assms(4) x(2) by simp
  have hs: "handlers_of x t = handlers_of w t" for t by (simp add: handlers_of_def x(9))
  note y = next_try_exhausted[OF q a, folded y_def]
  show "microtasks y = []" "reconnectAttempts y = n" "\<not> authenticated y"
    "connectionState y = connectionState x" "sockets y = sockets x"
    unfolding y using x by simp_all
  have "timers_wf w" using assms(1) by (simp add: retrying_def sane_def)
  from no_reconnect_after_clear[OF subset_refl this]
  show "filter (\<lambda>t. kind t = ReconnectTimer) (timers y) = []"
    unfolding y by (simp add: x(8) assms(2))
  show "filter (about ''max_reconnect_attempts_reached'') (trace y)
       = filter (about ''max_reconnect_attempts_reached'') (trace w)
         @ consumer_calls (consumer_throws w) ''max_reconnect_attempts_reached''
             (JObj [(''attempts'', JNum (int n))])
             (handlers_of w ''max_reconnect_attempts_reached'')"
    unfolding y by (simp add: filter_about_same x hs)
  show "sane y" unfolding y_def next_try_def using x(6) by (rule sane_reconnect_failed)
qed


text \<open>The socket of a failed cycle closes: no session was authenticated on it.\<close>

lemma closing_fields:
  fixes code :: nat and reason :: string
  assumes "sane y" "microtasks y = []" "i < length (sockets y)" "ready_of y i \<noteq> CLOSED"
    "\<not> authenticated y"
  defines "z \<equiv> step (SocketClose i code reason) y"
  shows "microtasks z = []" "reconnectAttempts z = reconnectAttempts y"
    "reconnectInterval z = reconnectInterval y" "token z = token y" "\<not> authenticated z"
    "connectionState z = Disconnected" "reconnectTimeout z = reconnectTimeout y"
    "set (timers z) \<subseteq> set (timers y)"
    "\<And>T. T \<in> set (timers y) \<Longrightarrow> kind T = ReconnectTimer \<Longrightarrow> T \<in> set (timers z)"
    "filter (about ''max_reconnect_attempts_reached'') (trace z)
       = filter (about ''max_reconnect_attempts_reached'') (trace y)"
    "sane z" "eventHandlers z = eventHandlers y" "consumer_throws z = consumer_throws y"
proof -
  have wf: "registry_wf y" "timers_wf y" using assms(1) by (simp_all add: sane_def)
  have q: "quiet y ''disconnected''" "quiet y ''reconnecting''"
    "quiet y ''max_reconnect_attempts_reached''"
    using wf(1) by (simp_all add: registry_wf_quiet)
  have z: "z = logs (consumer_calls (consumer_throws y) ''disconnected''
                       (close_payload code reason) (handlers_of y ''disconnected''))
                 (stopHeartbeat
                    ((set_ready i CLOSED y)
                       \<lparr>authenticated := False, connectionState := Disconnected, ws := None\<rparr>))"
    unfolding z_def using step_close[OF assms(2,3,4) q, of code reason] assms(5)
    by (simp add: Let_def)
  show "microtasks z = []" "reconnectAttempts z = reconnectAttempts y"
    "reconnectInterval z = reconnectInterval y" "token z = token y" "\<not> authenticated z"
    "connectionState z = Disconnected" "reconnectTimeout z = reconnectTimeout y"
    "eventHandlers z = eventHandlers y" "consumer_throws z = consumer_throws y"
    unfolding z using assms(2) by simp_all
  have t: "timers z = (case heartbeatInterval y of None \<Rightarrow> timers y
      | Some hb \<Rightarrow> filter (\<lambda>t. tid t \<noteq> hb) (timers y))"
    unfolding z by (simp add: timers_stopHeartbeat cong: option.case_cong)
  show "set (timers z) \<subseteq> set (timers y)"
    unfolding t by (auto split: option.splits)
  show "T \<in> set (timers z)" if "T \<in> set (timers y)" "kind T = ReconnectTimer" for T
    unfolding t using that wf(2) by (auto simp: timers_wf_def split: option.splits)
  show "filter (about ''max_reconnect_attempts_reached'') (trace z)
       = filter (about ''max_reconnect_attempts_reached'') (trace y)"
    unfolding z by (simp add: about_other)
  show "sane z" unfolding z_def using assms(1) by (rule sane_step)
qed

lemma fail_cycle_next:
  assumes "retrying w n d" "n < maxReconnectAttempts"
  shows "retrying (fail_cycle f w) (Suc n) (min (d * 2) maxReconnectInterval)"
    "filter (about ''max_reconnect_attempts_reached'') (trace (fail_cycle f w))
       = filter (about ''max_reconnect_attempts_reached'') (trace w)"
    "eventHandlers (fail_cycle f w) = eventHandlers w"
    "consumer_throws (fail_cycle f w) = consumer_throws w"
proof -
  obtain h where h: "reconnectTimeout w = Some h" using assms(1) by (auto simp: retrying_def)
  obtain tok where tok: "token w = Some tok" "tok \<noteq> []"
    using assms(1) by (auto simp: retrying_def)
  let ?d = "min (d * 2) maxReconnectInterval"
  let ?m = "\<lambda>v. filter (about ''max_reconnect_attempts_reached'') (trace v)"
  have "retrying (fail_cycle f w) (Suc n) ?d \<and> ?m (fail_cycle f w) = ?m w
      \<and> eventHandlers (fail_cycle f w) = eventHandlers w
      \<and> consumer_throws (fail_cycle f w) = consumer_throws w"
  proof (cases f)
    case (Some e)
    obtain x where x: "step (TimerFires h (Some e)) w = next_try x" "failing x w h"
      "connectionState x = Disconnected"
      using cycle_thrown[OF assms(1) h] by blast
    note y = failing_next[OF assms(1) h x(2) assms(2)]
    have c: "fail_cycle f w = next_try x" using Some h x(1) by (simp add: fail_cycle_def)
    show ?thesis
      unfolding c retrying_def using y tok x(3) by auto
  next
    case None
    let ?i = "length (sockets w)"
    obtain x where x: "run [TimerFires h None, SocketError ?i] w = next_try x" "failing x w h"
      "?i < length (sockets x)" "ready_of x ?i = CONNECTING"
      using cycle_refused[OF assms(1) h] by blast
    let ?y = "next_try x"
    note y = failing_next[OF assms(1) h x(2) assms(2)]
    have ry: "?i < length (sockets ?y)" "ready_of ?y ?i \<noteq> CLOSED"
      using x(3,4) by (simp_all add: y(9) ready_of_def)
    note z = closing_fields[OF y(11) y(1) ry y(5), where code = 1006 and reason = "[]"]
    have c: "fail_cycle f w = step (SocketClose ?i 1006 []) ?y"
      using None h x(1) by (simp add: fail_cycle_def)
    have "\<lparr>tid = next_timer x, kind = ReconnectTimer, delay = ?d\<rparr>
            \<in> set (timers (step (SocketClose ?i 1006 []) ?y))"
      using z(9)[OF y(7)] by simp
    then show ?thesis
      unfolding c retrying_def using z(1-7,10-13) y tok by auto
  qed
  then show "retrying (fail_cycle f w) (Suc n) (min (d * 2) maxReconnectInterval)"
    "filter (about ''max_reconnect_attempts_reached'') (trace (fail_cycle f w))
       = filter (about ''max_reconnect_attempts_reached'') (trace w)"
    "eventHandlers (fail_cycle f w) = eventHandlers w"
    "consumer_throws (fail_cycle f w) = consumer_throws w"
    by simp_all
qed

lemma fail_cycle_exhausted:
  assumes "retrying w n d" "maxReconnectAttempts \<le> n"
  shows "stopped (fail_cycle f w)" "reconnectAttempts (fail_cycle f w) = n"
    "filter (about ''max_reconnect_attempts_reached'') (trace (fail_cycle f w))
       = filter (about ''max_reconnect_attempts_reached'') (trace w)
         @ consumer_calls (consumer_throws w) ''max_reconnect_attempts_reached''
             (JObj [(''attempts'', JNum (int n))])
             (handlers_of w ''max_reconnect_attempts_reached'')"
proof -
  obtain h where h: "reconnectTimeout w = Some h" using assms(1) by (auto simp: retrying_def)
  let ?m = "\<lambda>v. filter (about ''max_reconnect_attempts_reached'') (trace v)"
  let ?c = "consumer_calls (consumer_throws w) ''max_reconnect_attempts_reached''
             (JObj [(''attempts'', JNum (int n))])
             (handlers_of w ''max_reconnect_attempts_reached'')"
  have "stopped (fail_cycle f w) \<and> reconnectAttempts (fail_cycle f w) = n
      \<and> ?m (fail_cycle f w) = ?m w @ ?c"
  proof (cases f)
    case (Some e)
    obtain x where x: "step (TimerFires h (Some e)) w = next_try x" "failing x w h"
      using cycle_thrown[OF assms(1) h] by blast
    note y = failing_exhausted[OF assms(1) h x(2) assms(2)]
    have c: "fail_cycle f w = next_try x" using Some h x(1) by (simp add: fail_cycle_def)
    show ?thesis
      unfolding c stopped_def reconnect_delays_def using y by simp
  next
    case None
    let ?i = "length (sockets w)"
    obtain x where x: "run [TimerFires h None, SocketError ?i] w = next_try x" "failing x w h"
      "?i < length (sockets x)" "ready_of x ?i = CONNECTING"
      using cycle_refused[OF assms(1) h] by blast
    let ?y = "next_try x"
    note y = failing_exhausted[OF assms(1) h x(2) assms(2)]
    have ry: "?i < length (sockets ?y)" "ready_of ?y ?i \<noteq> CLOSED"
      using x(3,4) by (simp_all add: y(6) ready_of_def)
    note z = closing_fields[OF y(8) y(1) ry y(3), where code = 1006 and reason = "[]"]
    have c: "fail_cycle f w = step (SocketClose ?i 1006 []) ?y"
      using None h x(1) by (simp add: fail_cycle_def)
    have "filter (\<lambda>t. kind t = ReconnectTimer) (timers (step (SocketClose ?i 1006 []) ?y)) = []"
      using z(8) y(4) by (auto simp: filter_empty_conv)
    then show ?thesis
      unfolding c stopped_def reconnect_delays_def using z(1,2,10) y by simp
  qed
  then show "stopped (fail_cycle f w)" "reconnectAttempts (fail_cycle f w) = n"
    "?m (fail_cycle f w) = ?m w @ ?c"
    by simp_all
qed


lemma loop_started:
  fixes reason :: string
  assumes "sane w" "microtasks w = []" "i < length (sockets w)" "ready_of w i \<noteq> CLOSED"
    "authenticated w" "code \<noteq> 1000" "token w = Some tok" "tok \<noteq> []"
    "reconnectAttempts w = 0" "reconnectInterval w = 1000"
  defines "w1 \<equiv> step (SocketClose i code reason) w"
  shows "retrying w1 1 1000" "exhaustion w1 = exhaustion w"
    "eventHandlers w1 = eventHandlers w" "consumer_throws w1 = consumer_throws w"
proof -
  have q: "quiet w ''disconnected''" "quiet w ''reconnecting''"
    "quiet w ''max_reconnect_attempts_reached''"
    using assms(1) by (simp_all add: sane_def registry_wf_quiet)
  let ?w2 = "logs (consumer_calls (consumer_throws w) ''disconnected''
                       (close_payload code reason) (handlers_of w ''disconnected''))
                 (stopHeartbeat
                    ((set_ready i CLOSED w)
                       \<lparr>authenticated := False, connectionState := Disconnected, ws := None\<rparr>))"
  have 1: "w1 = world_of (attemptReconnect ?w2)"
    unfolding w1_def using step_close[OF assms(2,3,4) q, of code reason] assms(5,6)
    by (simp add: Let_def)
  have q2: "quiet ?w2 ''reconnecting''" "quiet ?w2 ''max_reconnect_attempts_reached''"
    using q by (simp_all add: quiet_def handlers_of_def)
  have a: "\<not> maxReconnectAttempts \<le> reconnectAttempts ?w2"
    using assms(9) by (simp add: maxReconnectAttempts_def)
  have 2: "w1 = (set_timer ReconnectTimer (reconnectInterval ?w2)
              (clearReconnectTimeout
                 (logs (consumer_calls (consumer_throws ?w2) ''reconnecting''
                          (reconnecting_payload ?w2) (handlers_of ?w2 ''reconnecting''))
                    (?w2\<lparr>reconnectAttempts := reconnectAttempts ?w2 + 1\<rparr>))))
             \<lparr>reconnectTimeout := Some (next_timer ?w2)\<rparr>"
    unfolding 1 attemptReconnect_quiet[OF q2] using a by simp
  have s: "sane w1" unfolding w1_def using assms(1) by (rule sane_step)
  have f: "microtasks w1 = []" "connectionState w1 = Disconnected" "\<not> authenticated w1"
    "token w1 = Some tok" "reconnectAttempts w1 = 1" "reconnectInterval w1 = 1000"
    "reconnectTimeout w1 = Some (next_timer w)"
    unfolding 2 using assms by simp_all
  have t: "\<lparr>tid = next_timer w, kind = ReconnectTimer, delay = 1000\<rparr> \<in> set (timers w1)"
    unfolding 2 using assms(10) by (simp add: set_timer_def)
  show "retrying w1 1 1000" unfolding retrying_def using s f t assms(8) by simp
  show "exhaustion w1 = exhaustion w"
    unfolding 2 exhaustion_def by (simp add: about_other)
  show "eventHandlers w1 = eventHandlers w" "consumer_throws w1 = consumer_throws w"
    unfolding 2 by simp_all
qed

lemma observe_delays:
  assumes "retrying w n d" "n + length fs = maxReconnectAttempts"
  shows "observe reconnect_delays (f # fs) w = backoff (length fs) d"
  using assms
proof (induction fs arbitrary: f w n d)
  case Nil
  then have "stopped (fail_cycle f w)" by (intro fail_cycle_exhausted(1)[of w n d]) simp_all
  then show ?case using retrying_delays[OF Nil(1)] by (simp add: stopped_def)
next
  case (Cons g gs)
  have n: "n < maxReconnectAttempts" using Cons.prems(2) by simp
  have "observe reconnect_delays (g # gs) (fail_cycle f w)
          = backoff (length gs) (min (d * 2) maxReconnectInterval)"
    using Cons.prems(2) by (intro Cons.IH[OF fail_cycle_next(1)[OF Cons.prems(1) n]]) simp
  then show ?case using retrying_delays[OF Cons.prems(1)] by simp
qed

lemma observe_attempts:
  assumes "retrying w n d" "n + length fs = maxReconnectAttempts"
  shows "observe reconnectAttempts (f # fs) w
           = [n..<Suc maxReconnectAttempts] @ [maxReconnectAttempts]"
  using assms
proof (induction fs arbitrary: f w n d)
  case Nil
  then have "reconnectAttempts (fail_cycle f w) = n"
    by (intro fail_cycle_exhausted(2)[of w n d]) simp_all
  moreover have "reconnectAttempts w = n" using Nil(1) by (simp add: retrying_def)
  ultimately show ?case using Nil(2) by simp
next
  case (Cons g gs)
  have n: "n < maxReconnectAttempts" using Cons.prems(2) by simp
  have "observe reconnectAttempts (g # gs) (fail_cycle f w)
          = [Suc n..<Suc maxReconnectAttempts] @ [maxReconnectAttempts]"
    using Cons.prems(2) by (intro Cons.IH[OF fail_cycle_next(1)[OF Cons.prems(1) n]]) simp
  moreover have "reconnectAttempts w = n" using Cons.prems(1) by (simp add: retrying_def)
  moreover have "[n..<Suc maxReconnectAttempts] = n # [Suc n..<Suc maxReconnectAttempts]"
    using n by (intro upt_conv_Cons) simp
  ultimately show ?case by simp
qed

lemma observe_exhaustion:
  assumes "retrying w n d" "n + length fs = maxReconnectAttempts"
  shows "observe exhaustion (f # fs) w
           = replicate (Suc (length fs)) (exhaustion w)
             @ [exhaustion w
                @ consumer_calls (consumer_throws w) ''max_reconnect_attempts_reached''
                    (JObj [(''attempts'', JNum (int maxReconnectAttempts))])
                    (handlers_of w ''max_reconnect_attempts_reached'')]"
  using assms
proof (induction fs arbitrary: f w n d)
  case Nil
  then have "n = maxReconnectAttempts" by simp
  then show ?case
    using fail_cycle_exhausted(3)[OF Nil(1), of f] by (simp add: exhaustion_def)
next
  case (Cons g gs)
  have n: "n < maxReconnectAttempts" using Cons.prems(2) by simp
  note c = fail_cycle_next[OF Cons.prems(1) n, of f]
  have h: "handlers_of (fail_cycle f w) t = handlers_of w t" for t
    by (simp add: handlers_of_def c(3))
  have e: "exhaustion (fail_cycle f w) = exhaustion w" using c(2) by (simp add: exhaustion_def)
  have "observe exhaustion (g # gs) (fail_cycle f w)
          = replicate (Suc (length gs)) (exhaustion w)
             @ [exhaustion w
                @ consumer_calls (consumer_throws w) ''max_reconnect_attempts_reached''
                    (JObj [(''attempts'', JNum (int maxReconnectAttempts))])
                    (handlers_of w ''max_reconnect_attempts_reached'')]"
    using Cons.IH[OF c(1), of g] Cons.prems(2) by (simp add: h e c(4))
  then show ?case by simp
qed

lemma stopped_at_end:
  assumes "retrying w n d" "n + length fs = maxReconnectAttempts"
  shows "stopped (fail_cycles (f # fs) w)"
  using assms
proof (induction fs arbitrary: f w n d)
  case Nil
  then show ?case using fail_cycle_exhausted(1)[of w n d f] by simp
next
  case (Cons g gs)
  have n: "n < maxReconnectAttempts" using Cons.prems(2) by simp
  show ?case
    using Cons.IH[OF fail_cycle_next(1)[OF Cons.prems(1) n, of f], of g] Cons.prems(2) by simp
qed

lemma backoff_numeral:
  "backoff (numeral k) d = [d] # backoff (pred_numeral k) (min (d * 2) maxReconnectInterval)"
  by (simp add: numeral_eq_Suc)

lemma backoff_fresh:
  "backoff 9 1000 = [[1000], [2000], [4000], [8000], [16000], [30000], [30000], [30000],
                     [30000], [30000], []]"
  by (simp add: backoff_numeral maxReconnectInterval_def)


lemma attempts_fresh:
  "[1..<Suc maxReconnectAttempts] @ [maxReconnectAttempts] = [1, 2, 3, 4, 5, 6, 7, 8, 9, 10, 10]"
  by (simp add: maxReconnectAttempts_def upt_conv_Cons)

text \<open>
  Claim C1, for the cycles that fail before their socket opens. An authenticated session
  with a fresh policy (no attempt counted, interval 1000) and a token is closed with a
  code other than 1000, and then each of ten reconnect cycles fails before its socket
  opens: \<open>new WebSocket\<close> throws, or the socket reports an error while connecting and
  closes. Then the delays of the pending reconnect timer before the ten attempts are
  1000, 2000, 4000, 8000, 16000, 30000, 30000, 30000, 30000, 30000; the attempts counted
  are 1 to 10; the handlers of \<open>max_reconnect_attempts_reached\<close> are called, with the
  attempt count 10, once the tenth cycle has failed and not before; and after that no
  reconnect timer is pending and nothing is queued. (A cycle whose socket opens starts
  the policy afresh: see C10.)
\<close>

theorem backoff_while_no_socket_opens:
  fixes reason :: string
  assumes "sane w" "microtasks w = []" "i < length (sockets w)" "ready_of w i \<noteq> CLOSED"
    "authenticated w" "code \<noteq> 1000" "token w = Some tok" "tok \<noteq> []"
    "reconnectAttempts w = 0" "reconnectInterval w = 1000" "length fs = 10"
  shows "let lost = step (SocketClose i code reason) w
         in observe reconnect_delays fs lost
              = [[1000], [2000], [4000], [8000], [16000], [30000], [30000], [30000], [30000],
                 [30000], []]
          \<and> observe reconnectAttempts fs lost = [1, 2, 3, 4, 5, 6, 7, 8, 9, 10, 10]
          \<and> observe exhaustion fs lost
              = replicate 10 (exhaustion w)
                @ [exhaustion w
                   @ consumer_calls (consumer_throws w) ''max_reconnect_attempts_reached''
                       (JObj [(''attempts'', JNum 10)])
                       (handlers_of w ''max_reconnect_attempts_reached'')]
          \<and> stopped (fail_cycles fs lost)"
proof -
  let ?l = "step (SocketClose i code reason) w"
  note l = loop_started[OF assms(1-10), of reason]
  obtain f gs where fs: "fs = f # gs" using assms(11) by (cases fs) simp_all
  have n: "1 + length gs = maxReconnectAttempts" "length gs = 9"
    using assms(11) by (simp_all add: fs maxReconnectAttempts_def)
  have h: "handlers_of ?l t = handlers_of w t" for t by (simp add: handlers_of_def l(3))
  have 1: "observe reconnect_delays fs ?l
              = [[1000], [2000], [4000], [8000], [16000], [30000], [30000], [30000], [30000],
                 [30000], []]"
    unfolding fs observe_delays[OF l(1) n(1)] n(2) by (rule backoff_fresh)
  have 2: "observe reconnectAttempts fs ?l = [1, 2, 3, 4, 5, 6, 7, 8, 9, 10, 10]"
    unfolding fs observe_attempts[OF l(1) n(1)] by (rule attempts_fresh)
  have 3: "observe exhaustion fs ?l
              = replicate 10 (exhaustion w)
                @ [exhaustion w
                   @ consumer_calls (consumer_throws w) ''max_reconnect_attempts_reached''
                       (JObj [(''attempts'', JNum 10)])
                       (handlers_of w ''max_reconnect_attempts_reached'')]"
    unfolding fs observe_exhaustion[OF l(1) n(1)] n(2) l(2) l(4) h
    by (simp add: maxReconnectAttempts_def)
  have 4: "stopped (fail_cycles fs ?l)"
    unfolding fs by (rule stopped_at_end[OF l(1) n(1)])
  show ?thesis unfolding Let_def using 1 2 3 4 by simp
qed

text \<open>
  A session that has authenticated, with one consumer listening for
  \<open>max_reconnect_attempts_reached\<close>.
\<close>

definition w1 :: client where
  "w1 = run [CallOn ''max_reconnect_attempts_reached'' 4, CallConnect ''tok'' None,
             SocketOpen 0, TimerFires 0 None, SocketMessage 0 (Some auth_success_frame)]
          (new_client (\<lambda>c d. False))"

lemma w1_sane: "sane w1"
  unfolding w1_def by (intro sane_run sane_new)

lemma w1_facts:
  "microtasks w1 = []" "0 < length (sockets w1)" "ready_of w1 0 \<noteq> CLOSED" "authenticated w1"
  "token w1 = Some ''tok''" "reconnectAttempts w1 = 0" "reconnectInterval w1 = 1000"
  "exhaustion w1 = []" "consumer_throws w1 = (\<lambda>c d. False)"
  "handlers_of w1 ''max_reconnect_attempts_reached'' = [Consumer 4]"
  by (simp_all add: w1_def auth_success_frame_def exhaustion_def model_defs)

theorem backoff_while_no_socket_opens_witness:
  "sane w1 \<and> microtasks w1 = [] \<and> 0 < length (sockets w1) \<and> ready_of w1 0 \<noteq> CLOSED
   \<and> authenticated w1 \<and> (1006::nat) \<noteq> 1000 \<and> token w1 = Some ''tok'' \<and> ''tok'' \<noteq> []
   \<and> reconnectAttempts w1 = 0 \<and> reconnectInterval w1 = 1000
   \<and> length [None, Some (JStr ''refused''), None, None, Some JNull, None, None, None, None,
             Some (JStr ''refused'')] = 10
   \<and> observe reconnect_delays
        [None, Some (JStr ''refused''), None, None, Some JNull, None, None, None, None,
         Some (JStr ''refused'')] (step (SocketClose 0 1006 ''gone'') w1)
       = [[1000], [2000], [4000], [8000], [16000], [30000], [30000], [30000], [30000],
          [30000], []]
   \<and> observe reconnectAttempts
        [None, Some (JStr ''refused''), None, None, Some JNull, None, None, None, None,
         Some (JStr ''refused'')] (step (SocketClose 0 1006 ''gone'') w1)
       = [1, 2, 3, 4, 5, 6, 7, 8, 9, 10, 10]
   \<and> observe exhaustion
        [None, Some (JStr ''refused''), None, None, Some JNull, None, None, None, None,
         Some (JStr ''refused'')] (step (SocketClose 0 1006 ''gone'') w1)
       = replicate 10 []
         @ [[Invoked ''max_reconnect_attempts_reached'' (Consumer 4)
               (JObj [(''attempts'', JNum 10)])]]
   \<and> stopped (fail_cycles
        [None, Some (JStr ''refused''), None, None, Some JNull, None, None, None, None,
         Some (JStr ''refused'')] (step (SocketClose 0 1006 ''gone'') w1))"
proof -
  let ?fs = "[None, Some (JStr ''refused''), None, None, Some JNull, None, None, None, None,
         Some (JStr ''refused'')]"
  have c: "(1006::nat) \<noteq> 1000" "''tok'' \<noteq> []" "length ?fs = 10" by simp_all
  have k: "consumer_calls (\<lambda>c d. False) ''max_reconnect_attempts_reached''
             (JObj [(''attempts'', JNum 10)]) [Consumer 4]
           = [Invoked ''max_reconnect_attempts_reached'' (Consumer 4)
               (JObj [(''attempts'', JNum 10)])]"
    by simp
  note t = backoff_while_no_socket_opens[OF w1_sane w1_facts(1,2,3,4) c(1) w1_facts(5) c(2)
             w1_facts(6,7) c(3), of "''gone''", unfolded Let_def w1_facts(8,9,10) k]
  show ?thesis
    using t w1_sane w1_facts(1-7) c by simp
qed

text \<open>
  Claim C1 as stated fails for cycles that fail after their socket has opened: \<open>onopen\<close>
  sets the attempt count to 0 and the interval to 1000, so when the handshake is then
  refused the next delay is 2000 again, the attempt count is 1 again, and the limit of
  10 is never reached. Here two cycles in a row fail so, and the delays are 1000, 2000,
  2000.
\<close>

theorem backoff_restarts_after_open:
  "reconnectAttempts w5 = 0 \<and> reconnectInterval w5 = 1000
   \<and> reconnect_delays w5_lost = [1000]
   \<and> reconnect_delays
        (run [TimerFires 3 None, SocketOpen 1, TimerFires 4 None,
              SocketMessage 1 (Some auth_error_frame), SocketClose 1 1006 []] w5_lost) = [2000]
   \<and> reconnect_delays
        (run [TimerFires 3 None, SocketOpen 1, TimerFires 4 None,
              SocketMessage 1 (Some auth_error_frame), SocketClose 1 1006 [],
              TimerFires 6 None, SocketOpen 2, TimerFires 7 None,
              SocketMessage 2 (Some auth_error_frame), SocketClose 2 1006 []] w5_lost) = [2000]
   \<and> reconnectAttempts
        (run [TimerFires 3 None, SocketOpen 1, TimerFires 4 None,
              SocketMessage 1 (Some auth_error_frame), SocketClose 1 1006 [],
              TimerFires 6 None, SocketOpen 2, TimerFires 7 None,
              SocketMessage 2 (Some auth_error_frame), SocketClose 2 1006 []] w5_lost) = 1"
  by (simp add: w5_lost_def w5_def auth_success_frame_def auth_error_frame_def model_defs)

end
